theory Spec2Isabelle
  imports Main "HOL-Library.Multiset" "HOL-Library.Product_Lexorder" "HOL-Library.Char_ord"
    "HOL-Library.List_Lexorder"
begin

section \<open>Data model\<close>

text \<open>
  Dates and date-times as Python's \<^verbatim>\<open>datetime.date\<close> and \<^verbatim>\<open>datetime.datetime\<close>:
  the calendar fields, each a natural number. The settings module is not among the
  sources, so the time-zone configuration is unknown; date-times are modelled naive
  (no offset), which is what Django stores when time-zone support is off.
\<close>

record date =
  year :: nat
  month :: nat
  day :: nat

record datetime = date +
  hour :: nat
  minute :: nat
  second :: nat
  microsecond :: nat

text \<open>Comparison of date-times (\<^verbatim>\<open>gte\<close>, \<^verbatim>\<open>lte\<close>, ORDER BY) is lexicographic on the fields.\<close>

definition dt_key :: "datetime \<Rightarrow> nat \<times> nat \<times> nat \<times> nat \<times> nat \<times> nat \<times> nat" where
  "dt_key t = (year t, month t, day t, hour t, minute t, second t, microsecond t)"

text \<open>\<^verbatim>\<open>datetime.date()\<close>: the calendar date of a date-time.\<close>

definition date_of :: "datetime \<Rightarrow> date" where
  "date_of t = \<lparr>year = year t, month = month t, day = day t\<rparr>"

text \<open>models.py, class Log. The primary key \<^verbatim>\<open>id\<close> is \<open>log_id\<close> here.\<close>

record log =
  log_id :: nat
  timestamp :: datetime
  message :: string
  severity :: string
  source :: string

definition SEVERITY_CHOICES :: "(string \<times> string) list" where
  "SEVERITY_CHOICES =
     [(''DEBUG'', ''Debug''), (''INFO'', ''Info''), (''WARNING'', ''Warning''),
      (''ERROR'', ''Error''), (''CRITICAL'', ''Critical'')]"

text \<open>
  A queryset is lazy: it holds the selected rows (in table order) and the ORDER BY terms
  that apply when it is evaluated. \<^verbatim>\<open>Log.objects.all()\<close> starts with the model's
  \<^verbatim>\<open>Meta.ordering = ["-timestamp"]\<close>.
\<close>

record queryset =
  qs_rows :: "log list"
  qs_ordering :: "string list"

definition Log_objects_all :: "log list \<Rightarrow> queryset" where
  "Log_objects_all db = \<lparr>qs_rows = db, qs_ordering = [''-timestamp'']\<rparr>"

text \<open>
  One ORDER BY term, as a stable sort; a leading minus sorts descending. The terms that
  can reach a Log queryset are the model's default and the view's \<open>ordering_fields\<close>.
\<close>

definition sort_desc_key :: "('a \<Rightarrow> 'k::linorder) \<Rightarrow> 'a list \<Rightarrow> 'a list" where
  "sort_desc_key f xs = rev (sort_key f (rev xs))"

definition order_by_term :: "string \<Rightarrow> log list \<Rightarrow> log list" where
  "order_by_term t xs =
     (if t = ''timestamp'' then sort_key (\<lambda>r. dt_key (timestamp r)) xs
      else if t = ''-timestamp'' then sort_desc_key (\<lambda>r. dt_key (timestamp r)) xs
      else if t = ''severity'' then sort_key severity xs
      else if t = ''-severity'' then sort_desc_key severity xs
      else if t = ''source'' then sort_key source xs
      else if t = ''-source'' then sort_desc_key source xs
      else xs)"

text \<open>Evaluating the queryset: ORDER BY t1, t2, ... (the first term is the primary key).\<close>

definition evaluate :: "queryset \<Rightarrow> log list" where
  "evaluate qs = foldr order_by_term (qs_ordering qs) (qs_rows qs)"

section \<open>Requests and errors\<close>

text \<open>
  The exceptions a view can end with: the permission check (401), the filter form's
  validation (400), a lookup that finds no row (404) or more than one, and the database's
  rejection of a row that breaks a constraint.
\<close>

datatype error =
  NotAuthenticated | ValidationError | Http404 | MultipleObjectsReturned | IntegrityError

text \<open>
  A date-time query parameter after the filter form has cleaned it: absent or empty, not
  parseable as ISO-8601, or the parsed value. The parser is the framework's.
\<close>

datatype 'a cleaned = Absent | Malformed | Cleaned 'a

record request =
  request_user :: "nat option"
  query_params :: "string \<rightharpoonup> string"
  date_from :: "datetime cleaned"
  date_to :: "datetime cleaned"

text \<open>\<^verbatim>\<open>request.query_params.get(key, default)\<close>\<close>

definition qp_get :: "(string \<rightharpoonup> string) \<Rightarrow> string \<Rightarrow> string \<Rightarrow> string" where
  "qp_get params k d = (case params k of None \<Rightarrow> d | Some v \<Rightarrow> v)"

section \<open>Python strings\<close>

definition isspace :: "char \<Rightarrow> bool" where
  "isspace c = (let n = (of_char c :: nat) in (9 \<le> n \<and> n \<le> 13) \<or> (28 \<le> n \<and> n \<le> 32))"

text \<open>\<^verbatim>\<open>str.strip()\<close>\<close>

definition strip :: "string \<Rightarrow> string" where
  "strip s = rev (dropWhile isspace (rev (dropWhile isspace s)))"

text \<open>\<^verbatim>\<open>str.split(sep)\<close> for a one-character separator: always at least one piece.\<close>

fun split_sep :: "char \<Rightarrow> string \<Rightarrow> string list" where
  "split_sep sep [] = [[]]"
| "split_sep sep (c # cs) =
     (if c = sep then [] # split_sep sep cs
      else (case split_sep sep cs of p # ps \<Rightarrow> (c # p) # ps | [] \<Rightarrow> [[c]]))"

text \<open>\<^verbatim>\<open>str.split()\<close>: the maximal runs of non-whitespace characters.\<close>

fun split_ws_acc :: "string \<Rightarrow> string \<Rightarrow> string list" where
  "split_ws_acc w [] = (if w = [] then [] else [w])"
| "split_ws_acc w (c # cs) =
     (if isspace c then (if w = [] then split_ws_acc [] cs else w # split_ws_acc [] cs)
      else split_ws_acc (w @ [c]) cs)"

definition split_ws :: "string \<Rightarrow> string list" where
  "split_ws s = split_ws_acc [] s"

text \<open>Lower-casing of the ASCII letters, for the case-insensitive match.\<close>

definition lower_char :: "char \<Rightarrow> char" where
  "lower_char c =
     (case map_of (zip ''ABCDEFGHIJKLMNOPQRSTUVWXYZ'' ''abcdefghijklmnopqrstuvwxyz'') c of
        Some l \<Rightarrow> l
      | None \<Rightarrow> c)"

definition lower :: "string \<Rightarrow> string" where
  "lower s = map lower_char s"

text \<open>\<^verbatim>\<open>needle in haystack\<close>: substring search, trying every start position.\<close>

fun starts_with :: "string \<Rightarrow> string \<Rightarrow> bool" where
  "starts_with [] s = True"
| "starts_with (p # ps) [] = False"
| "starts_with (p # ps) (c # cs) = (p = c \<and> starts_with ps cs)"

fun contains :: "string \<Rightarrow> string \<Rightarrow> bool" where
  "contains needle [] = (needle = [])"
| "contains needle (c # cs) = (starts_with needle (c # cs) \<or> contains needle cs)"

text \<open>The \<^verbatim>\<open>icontains\<close> lookup: case-insensitive containment.\<close>

definition icontains :: "string \<Rightarrow> string \<Rightarrow> bool" where
  "icontains field_value term = contains (lower term) (lower field_value)"

text \<open>\<^verbatim>\<open>str(n)\<close> for a non-negative integer, and \<^verbatim>\<open>%0wd\<close> formatting.\<close>

definition digit_char :: "nat \<Rightarrow> char" where
  "digit_char d = ''0123456789'' ! d"

fun str_nat :: "nat \<Rightarrow> string" where
  "str_nat n = (if n < 10 then [digit_char n] else str_nat (n div 10) @ [digit_char (n mod 10)])"

declare str_nat.simps [simp del]

definition zero_pad :: "nat \<Rightarrow> nat \<Rightarrow> string" where
  "zero_pad w n = replicate (w - length (str_nat n)) (CHR ''0'') @ str_nat n"

text \<open>\<^verbatim>\<open>date.isoformat()\<close>: YYYY-MM-DD.\<close>

definition date_isoformat :: "date \<Rightarrow> string" where
  "date_isoformat d = zero_pad 4 (year d) @ ''-'' @ zero_pad 2 (month d) @ ''-'' @ zero_pad 2 (day d)"

text \<open>
  \<^verbatim>\<open>datetime.isoformat(sep)\<close>: the date, the separator, then the time as HH:MM:SS with
  the microseconds only when they are not zero.
\<close>

definition format_time :: "datetime \<Rightarrow> string" where
  "format_time t =
     zero_pad 2 (hour t) @ '':'' @ zero_pad 2 (minute t) @ '':'' @ zero_pad 2 (second t) @
     (if microsecond t = 0 then [] else ''.'' @ zero_pad 6 (microsecond t))"

definition datetime_isoformat :: "char \<Rightarrow> datetime \<Rightarrow> string" where
  "datetime_isoformat sep t = date_isoformat (date_of t) @ [sep] @ format_time t"

text \<open>\<^verbatim>\<open>str(datetime)\<close> is \<^verbatim>\<open>isoformat(sep=' ')\<close>.\<close>

definition str_datetime :: "datetime \<Rightarrow> string" where
  "str_datetime t = datetime_isoformat (CHR '' '') t"

section \<open>Filter backends (filters.py, views.py)\<close>

text \<open>
  \<open>filter_queryset\<close> runs the view's filter backends in order. The view does not set
  \<open>filter_backends\<close>, so the list is the project setting DEFAULT_FILTER_BACKENDS; the
  settings module is not among the sources, and the list is a parameter here.
\<close>

datatype filter_backend = DjangoFilterBackend | SearchFilter | OrderingFilter

text \<open>
  LogFilter: \<open>severity\<close> and \<open>source\<close> are exact matches generated from \<open>Meta.fields\<close>,
  \<open>date_from\<close> and \<open>date_to\<close> are \<open>gte\<close> and \<open>lte\<close> on \<open>timestamp\<close>. An empty value
  puts no constraint. \<open>severity\<close> is a choice field (the model field has choices): a
  value outside the choices fails validation. \<open>source\<close> is a character field, whose
  value the form strips.
\<close>

definition severity_valid :: "string \<Rightarrow> bool" where
  "severity_valid v = (v = [] \<or> v \<in> set (map fst SEVERITY_CHOICES))"

definition LogFilter_is_valid :: "request \<Rightarrow> bool" where
  "LogFilter_is_valid req =
     (severity_valid (qp_get (query_params req) ''severity'' []) \<and>
      date_from req \<noteq> Malformed \<and> date_to req \<noteq> Malformed)"

definition exact_ok :: "string \<Rightarrow> string \<Rightarrow> bool" where
  "exact_ok v field_value = (v = [] \<or> field_value = v)"

definition gte_ok :: "datetime cleaned \<Rightarrow> datetime \<Rightarrow> bool" where
  "gte_ok bound t = (case bound of Cleaned a \<Rightarrow> dt_key a \<le> dt_key t | _ \<Rightarrow> True)"

definition lte_ok :: "datetime cleaned \<Rightarrow> datetime \<Rightarrow> bool" where
  "lte_ok bound t = (case bound of Cleaned b \<Rightarrow> dt_key t \<le> dt_key b | _ \<Rightarrow> True)"

definition LogFilter_qs :: "request \<Rightarrow> log list \<Rightarrow> log list" where
  "LogFilter_qs req xs =
     filter (\<lambda>r. lte_ok (date_to req) (timestamp r))
       (filter (\<lambda>r. gte_ok (date_from req) (timestamp r))
         (filter (\<lambda>r. exact_ok (strip (qp_get (query_params req) ''source'' [])) (source r))
           (filter (\<lambda>r. exact_ok (qp_get (query_params req) ''severity'' []) (severity r)) xs)))"

text \<open>
  SearchFilter with \<open>search_fields = ["message", "source"]\<close>: the \<open>search\<close> parameter is
  cut into terms at whitespace and commas (NUL characters removed); a row stays when
  every term is contained, ignoring case, in at least one of the fields. Later versions of
  the framework also keep a quoted phrase together as one term; they cut a value without
  quote characters in the same way.
\<close>

definition search_fields :: "(log \<Rightarrow> string) list" where
  "search_fields = [message, source]"

definition get_search_terms :: "request \<Rightarrow> string list" where
  "get_search_terms req =
     split_ws (map (\<lambda>c. if c = CHR '','' then CHR '' '' else c)
       (filter (\<lambda>c. c \<noteq> CHR 0x00) (qp_get (query_params req) ''search'' [])))"

definition search_row :: "string list \<Rightarrow> log \<Rightarrow> bool" where
  "search_row terms r =
     foldr (\<lambda>t ok. foldr (\<lambda>f hit. icontains (f r) t \<or> hit) search_fields False \<and> ok) terms True"

text \<open>
  OrderingFilter with \<open>ordering_fields = ["timestamp", "severity", "source"]\<close>: the
  \<open>ordering\<close> parameter is a comma-separated list of terms; terms outside the allow-list
  are dropped; when none is left the queryset keeps its ordering (the view sets no
  \<open>ordering\<close> attribute).
\<close>

definition ordering_fields :: "string list" where
  "ordering_fields = [''timestamp'', ''severity'', ''source'']"

definition term_valid :: "string \<Rightarrow> bool" where
  "term_valid t = ((case t of c # cs \<Rightarrow> (if c = CHR ''-'' then cs else t) | [] \<Rightarrow> t) \<in> set ordering_fields)"

definition get_ordering :: "request \<Rightarrow> string list" where
  "get_ordering req =
     (case query_params req ''ordering'' of
        None \<Rightarrow> []
      | Some params \<Rightarrow> if params = [] then [] else filter term_valid (map strip (split_sep (CHR '','') params)))"

fun backend_filter_queryset :: "filter_backend \<Rightarrow> request \<Rightarrow> queryset \<Rightarrow> error + queryset" where
  "backend_filter_queryset DjangoFilterBackend req qs =
     (if LogFilter_is_valid req then Inr (qs\<lparr>qs_rows := LogFilter_qs req (qs_rows qs)\<rparr>)
      else Inl ValidationError)"
| "backend_filter_queryset SearchFilter req qs =
     (if get_search_terms req = [] then Inr qs
      else Inr (qs\<lparr>qs_rows := filter (search_row (get_search_terms req)) (qs_rows qs)\<rparr>))"
| "backend_filter_queryset OrderingFilter req qs =
     (if get_ordering req = [] then Inr qs else Inr (qs\<lparr>qs_ordering := get_ordering req\<rparr>))"

fun filter_queryset :: "filter_backend list \<Rightarrow> request \<Rightarrow> queryset \<Rightarrow> error + queryset" where
  "filter_queryset [] req qs = Inr qs"
| "filter_queryset (b # bs) req qs =
     (case backend_filter_queryset b req qs of
        Inl e \<Rightarrow> Inl e
      | Inr qs' \<Rightarrow> filter_queryset bs req qs')"

section \<open>Aggregation (views.py, LogViewSet.aggregated)\<close>

datatype json = JInt nat | JStr string

type_synonym jobject = "(string \<times> json) list"

datatype response =
  Response "jobject list"
  | StreamingHttpResponse (content_type: string) (content_disposition: string)
      (streaming_content: "string list")

text \<open>\<^verbatim>\<open>TruncDay\<close> and \<^verbatim>\<open>TruncMonth\<close>: the start of the calendar day, of the calendar month.\<close>

definition TruncDay :: "datetime \<Rightarrow> datetime" where
  "TruncDay t = t\<lparr>hour := 0, minute := 0, second := 0, microsecond := 0\<rparr>"

definition TruncMonth :: "datetime \<Rightarrow> datetime" where
  "TruncMonth t = t\<lparr>day := 1, hour := 0, minute := 0, second := 0, microsecond := 0\<rparr>"

text \<open>
  \<^verbatim>\<open>.values(key).annotate(count=Count("id"))\<close> is GROUP BY key with COUNT: one pass over
  the rows, each row adding one to the counter of its key.
\<close>

fun count_into :: "'k \<Rightarrow> ('k \<times> nat) list \<Rightarrow> ('k \<times> nat) list" where
  "count_into k [] = [(k, 1)]"
| "count_into k ((k', c) # gs) =
     (if k = k' then (k', Suc c) # gs else (k', c) # count_into k gs)"

definition group_count :: "('r \<Rightarrow> 'k) \<Rightarrow> 'r list \<Rightarrow> ('k \<times> nat) list" where
  "group_count key rs = foldl (\<lambda>gs r. count_into (key r) gs) [] rs"

text \<open>The counter of a key in a group table (0 when the key has no group).\<close>

definition count_of :: "('k \<times> nat) list \<Rightarrow> 'k \<Rightarrow> nat" where
  "count_of gs k = (case map_of gs k of None \<Rightarrow> 0 | Some c \<Rightarrow> c)"

text \<open>
  The three branches of the view. ORDER BY count DESC leaves the order of groups with
  equal counts to the database; the stable sort here is one of the admissible orders.
\<close>

definition date_data :: "string \<Rightarrow> log list \<Rightarrow> (datetime \<times> nat) list" where
  "date_data interval rs =
     (let ts = (if interval = ''day'' then TruncDay else TruncMonth)
      in sort_key (\<lambda>item. dt_key (fst item)) (group_count (\<lambda>r. ts (timestamp r)) rs))"

definition count_data :: "(log \<Rightarrow> string) \<Rightarrow> log list \<Rightarrow> (string \<times> nat) list" where
  "count_data field rs = sort_desc_key snd (group_count field rs)"

text \<open>The entries of the response: the dictionaries the view returns, as key-value lists.\<close>

definition date_item :: "datetime \<times> nat \<Rightarrow> jobject" where
  "date_item item =
     [(''date'', JStr (date_isoformat (date_of (fst item)))), (''count'', JInt (snd item))]"

definition count_item :: "string \<Rightarrow> string \<times> nat \<Rightarrow> jobject" where
  "count_item field item = [(field, JStr (fst item)), (''count'', JInt (snd item))]"

definition aggregated_result :: "string \<Rightarrow> string \<Rightarrow> log list \<Rightarrow> jobject list" where
  "aggregated_result group_by interval rs =
     (if group_by = ''date'' then map date_item (date_data interval rs)
      else if group_by = ''severity'' then map (count_item ''severity'') (count_data severity rs)
      else map (count_item ''source'') (count_data source rs))"

definition aggregated :: "filter_backend list \<Rightarrow> request \<Rightarrow> log list \<Rightarrow> error + response" where
  "aggregated backends req db =
     (if request_user req = None then Inl NotAuthenticated
      else
        let group_by = qp_get (query_params req) ''group_by'' ''date'';
            interval = qp_get (query_params req) ''interval'' ''day''
        in case filter_queryset backends req (Log_objects_all db) of
             Inl e \<Rightarrow> Inl e
           | Inr qs \<Rightarrow> Inr (Response (aggregated_result group_by interval (qs_rows qs))))"

section \<open>The raw listing (views.py, LogViewSet.raw; serializers.py, LogSerializer)\<close>

text \<open>
  The serializer renders the fields in the order of \<open>Meta.fields\<close>; the timestamp is
  rendered by the framework's date-time field, whose default output is
  \<^verbatim>\<open>isoformat()\<close>, with the separator T.
\<close>

definition LogSerializer :: "log \<Rightarrow> jobject" where
  "LogSerializer r =
     [(''id'', JInt (log_id r)),
      (''timestamp'', JStr (datetime_isoformat (CHR ''T'') (timestamp r))),
      (''message'', JStr (message r)),
      (''severity'', JStr (severity r)),
      (''source'', JStr (source r))]"

definition raw :: "filter_backend list \<Rightarrow> request \<Rightarrow> log list \<Rightarrow> error + response" where
  "raw backends req db =
     (if request_user req = None then Inl NotAuthenticated
      else case filter_queryset backends req (Log_objects_all db) of
             Inl e \<Rightarrow> Inl e
           | Inr qs \<Rightarrow> Inr (Response (map LogSerializer (evaluate qs))))"

section \<open>CSV export (views.py, LogViewSet.export_csv)\<close>

text \<open>
  \<^verbatim>\<open>csv.writer\<close> with its default dialect: fields separated by a comma, quoted with the
  double quote only where needed, an embedded quote written twice, rows ended by CR LF.
\<close>

definition delimiter :: char where
  "delimiter = CHR '',''"

definition quotechar :: char where
  "quotechar = CHR 0x22"

definition lineterminator :: string where
  "lineterminator = [CHR 0x0D, CHR 0x0A]"

text \<open>The values the view puts in a row, and the text \<^verbatim>\<open>str()\<close> gives for each.\<close>

datatype cell = CInt nat | CDateTime datetime | CStr string

fun str_cell :: "cell \<Rightarrow> string" where
  "str_cell (CInt n) = str_nat n"
| "str_cell (CDateTime t) = str_datetime t"
| "str_cell (CStr s) = s"

text \<open>
  One field: a character that is the delimiter, the quote character or part of the line
  terminator makes the field quoted; every quote character of the field is doubled.
\<close>

definition must_quote :: "char \<Rightarrow> bool" where
  "must_quote c \<longleftrightarrow> c = delimiter \<or> c = quotechar \<or> c \<in> set lineterminator"

fun double_quotes :: "string \<Rightarrow> string" where
  "double_quotes [] = []"
| "double_quotes (c # cs) =
     (if c = quotechar then quotechar # quotechar # double_quotes cs else c # double_quotes cs)"

definition join_append :: "string \<Rightarrow> string" where
  "join_append s =
     (if \<exists>c \<in> set s. must_quote c then quotechar # double_quotes s @ [quotechar] else s)"

fun join_fields :: "string list \<Rightarrow> string" where
  "join_fields [] = []"
| "join_fields [f] = f"
| "join_fields (f # g # gs) = f @ delimiter # join_fields (g # gs)"

text \<open>
  \<^verbatim>\<open>writer.writerow(row)\<close>: a row whose only field is empty is written as a pair of
  quotes. The writer writes to \<open>Echo\<close>, whose \<open>write\<close> returns the text, so the text of
  the row is the value of \<^verbatim>\<open>writerow\<close>.
\<close>

definition write_fields :: "string list \<Rightarrow> string" where
  "write_fields fs =
     (let rec = join_fields (map join_append fs)
      in (if fs \<noteq> [] \<and> rec = [] then [quotechar, quotechar] else rec) @ lineterminator)"

definition writerow :: "cell list \<Rightarrow> string" where
  "writerow row = write_fields (map str_cell row)"

text \<open>
  \<open>generate_csv\<close>: the generator yields the header line, then one line for each row that
  \<^verbatim>\<open>qs.iterator(chunk_size=500)\<close> delivers (the evaluated queryset, fetched in chunks).
\<close>

definition log_row :: "log \<Rightarrow> cell list" where
  "log_row r =
     [CInt (log_id r), CDateTime (timestamp r), CStr (message r), CStr (severity r), CStr (source r)]"

definition generate_csv :: "queryset \<Rightarrow> string list" where
  "generate_csv qs =
     writerow [CStr ''id'', CStr ''timestamp'', CStr ''message'', CStr ''severity'', CStr ''source'']
     # map (\<lambda>r. writerow (log_row r)) (evaluate qs)"

definition export_csv :: "filter_backend list \<Rightarrow> request \<Rightarrow> log list \<Rightarrow> error + response" where
  "export_csv backends req db =
     (if request_user req = None then Inl NotAuthenticated
      else case filter_queryset backends req (Log_objects_all db) of
             Inl e \<Rightarrow> Inl e
           | Inr qs \<Rightarrow>
               Inr (StreamingHttpResponse ''text/csv''
                 (''attachment; filename='' @ [CHR 0x22] @ ''logs_export.csv'' @ [CHR 0x22])
                 (generate_csv qs)))"

section \<open>Reading the exported document\<close>

text \<open>
  Modelled from the spec: the reader of the round trip ("parsing the exported CSV", under
  the "CSV quoting rules" of the streaming export). No reader is part of the sources. It is
  the state machine of the \<^verbatim>\<open>csv.reader\<close> that belongs to the writer above (same
  dialect, not strict), run over the characters of the whole document: a comma ends a field,
  CR, LF or CR LF end a record, an empty line is an empty record, a field that starts
  with a quote runs to its closing quote, and two quotes inside it stand for one.
\<close>

datatype reader_state =
  START_RECORD | START_FIELD | IN_FIELD | IN_QUOTED_FIELD | QUOTE_IN_QUOTED_FIELD | EAT_CRNL

record reader =
  rd_state :: reader_state
  rd_field :: string
  rd_fields :: "string list"
  rd_rows :: "string list list"

definition parse_add_char :: "char \<Rightarrow> reader \<Rightarrow> reader" where
  "parse_add_char c rd = rd\<lparr>rd_field := rd_field rd @ [c]\<rparr>"

definition parse_save_field :: "reader \<Rightarrow> reader" where
  "parse_save_field rd = rd\<lparr>rd_fields := rd_fields rd @ [rd_field rd], rd_field := []\<rparr>"

definition end_record :: "char \<Rightarrow> reader \<Rightarrow> reader" where
  "end_record c rd =
     rd\<lparr>rd_rows := rd_rows rd @ [rd_fields rd], rd_fields := [], rd_field := [],
        rd_state := (if c = CHR 0x0D then EAT_CRNL else START_RECORD)\<rparr>"

definition is_newline :: "char \<Rightarrow> bool" where
  "is_newline c \<longleftrightarrow> c = CHR 0x0A \<or> c = CHR 0x0D"

definition start_field :: "reader \<Rightarrow> char \<Rightarrow> reader" where
  "start_field rd c =
     (if is_newline c then end_record c (parse_save_field rd)
      else if c = quotechar then rd\<lparr>rd_state := IN_QUOTED_FIELD\<rparr>
      else if c = delimiter then (parse_save_field rd)\<lparr>rd_state := START_FIELD\<rparr>
      else (parse_add_char c rd)\<lparr>rd_state := IN_FIELD\<rparr>)"

definition start_record :: "reader \<Rightarrow> char \<Rightarrow> reader" where
  "start_record rd c = (if is_newline c then end_record c rd else start_field rd c)"

definition parse_process_char :: "reader \<Rightarrow> char \<Rightarrow> reader" where
  "parse_process_char rd c =
     (case rd_state rd of
        START_RECORD \<Rightarrow> start_record rd c
      | START_FIELD \<Rightarrow> start_field rd c
      | IN_FIELD \<Rightarrow>
          (if is_newline c then end_record c (parse_save_field rd)
           else if c = delimiter then (parse_save_field rd)\<lparr>rd_state := START_FIELD\<rparr>
           else parse_add_char c rd)
      | IN_QUOTED_FIELD \<Rightarrow>
          (if c = quotechar then rd\<lparr>rd_state := QUOTE_IN_QUOTED_FIELD\<rparr>
           else parse_add_char c rd)
      | QUOTE_IN_QUOTED_FIELD \<Rightarrow>
          (if c = quotechar then (parse_add_char c rd)\<lparr>rd_state := IN_QUOTED_FIELD\<rparr>
           else if c = delimiter then (parse_save_field rd)\<lparr>rd_state := START_FIELD\<rparr>
           else if is_newline c then end_record c (parse_save_field rd)
           else (parse_add_char c rd)\<lparr>rd_state := IN_FIELD\<rparr>)
      | EAT_CRNL \<Rightarrow>
          (if c = CHR 0x0A then rd\<lparr>rd_state := START_RECORD\<rparr> else start_record rd c))"

definition reader_init :: reader where
  "reader_init = \<lparr>rd_state = START_RECORD, rd_field = [], rd_fields = [], rd_rows = []\<rparr>"

definition reader_finish :: "reader \<Rightarrow> string list list" where
  "reader_finish rd =
     (if rd_state rd = START_RECORD \<or> rd_state rd = EAT_CRNL then rd_rows rd
      else rd_rows rd @ [rd_fields rd @ [rd_field rd]])"

definition csv_reader :: "string \<Rightarrow> string list list" where
  "csv_reader text = reader_finish (foldl parse_process_char reader_init text)"

text \<open>The text of a JSON value, to compare an entry of the listing with a row of cells.\<close>

fun json_text :: "json \<Rightarrow> string" where
  "json_text (JInt n) = str_nat n"
| "json_text (JStr s) = s"

definition jobject_values :: "jobject \<Rightarrow> string list" where
  "jobject_values obj = map (\<lambda>kv. json_text (snd kv)) obj"

section \<open>Filter preferences (models.py, serializers.py, views.py)\<close>

text \<open>
  models.py, class UserFilterPreference; \<open>pref_user\<close> is the id of the owning user. The
  table is the list of its rows, and a view takes the table and returns its result with the
  table it leaves.
\<close>

record user_filter_preference =
  pref_id :: nat
  pref_user :: nat
  pref_name :: string
  pref_severity :: string
  pref_source :: string
  pref_date_from :: "date option"
  pref_date_to :: "date option"
  created_at :: datetime
  updated_at :: datetime

text \<open>
  The data of a request body after the serializer has validated it. The serializer declares
  \<open>id\<close>, \<open>user\<close>, \<open>created_at\<close> and \<open>updated_at\<close> read-only, so they are never
  part of it.
\<close>

record validated_data =
  vd_name :: string
  vd_severity :: string
  vd_source :: string
  vd_date_from :: "date option"
  vd_date_to :: "date option"

datatype pref_response =
  PrefList "user_filter_preference list" | PrefOne user_filter_preference | NoContent

text \<open>\<open>get_queryset\<close>: \<^verbatim>\<open>self.queryset.filter(user=self.request.user)\<close>\<close>

definition get_queryset :: "request \<Rightarrow> user_filter_preference list \<Rightarrow> user_filter_preference list" where
  "get_queryset req store = filter (\<lambda>p. Some (pref_user p) = request_user req) store"

text \<open>
  \<open>get_object\<close> of the generic view: the row of the view's queryset with the given
  primary key, 404 when there is none.
\<close>

definition get_object :: "request \<Rightarrow> nat \<Rightarrow> user_filter_preference list \<Rightarrow> error + user_filter_preference" where
  "get_object req pk store =
     (case filter (\<lambda>p. pref_id p = pk) (get_queryset req store) of
        [] \<Rightarrow> Inl Http404
      | [p] \<Rightarrow> Inr p
      | _ \<Rightarrow> Inl MultipleObjectsReturned)"

text \<open>The primary key the table gives a new row: one more than the largest key in use.\<close>

definition next_id :: "user_filter_preference list \<Rightarrow> nat" where
  "next_id store = Suc (fold max (map pref_id store) 0)"

text \<open>The list view: the caller's rows in the model's order, \<^verbatim>\<open>["-created_at"]\<close>.\<close>

definition list_preferences ::
  "request \<Rightarrow> user_filter_preference list \<Rightarrow> (error + pref_response) \<times> user_filter_preference list" where
  "list_preferences req store =
     (if request_user req = None then (Inl NotAuthenticated, store)
      else (Inr (PrefList (sort_desc_key (\<lambda>p. dt_key (created_at p)) (get_queryset req store))), store))"

definition retrieve ::
  "request \<Rightarrow> nat \<Rightarrow> user_filter_preference list \<Rightarrow> (error + pref_response) \<times> user_filter_preference list" where
  "retrieve req pk store =
     (if request_user req = None then (Inl NotAuthenticated, store)
      else case get_object req pk store of
             Inl e \<Rightarrow> (Inl e, store)
           | Inr p \<Rightarrow> (Inr (PrefOne p), store))"

text \<open>
  \<open>perform_create\<close> and the serializer's \<open>create\<close>: the user of the new row is the
  caller; the time stamps are the time of the insert. The table has
  \<^verbatim>\<open>unique_together = [["user", "name"]]\<close>: it refuses a row whose user and name are
  those of a row it holds, and stays as it was.
\<close>

definition create ::
  "request \<Rightarrow> validated_data \<Rightarrow> datetime \<Rightarrow> user_filter_preference list \<Rightarrow>
     (error + pref_response) \<times> user_filter_preference list" where
  "create req data now store =
     (case request_user req of
        None \<Rightarrow> (Inl NotAuthenticated, store)
      | Some u \<Rightarrow>
          if \<exists>p \<in> set store. pref_user p = u \<and> pref_name p = vd_name data
          then (Inl IntegrityError, store)
          else
            let p = \<lparr>pref_id = next_id store, pref_user = u, pref_name = vd_name data,
                     pref_severity = vd_severity data, pref_source = vd_source data,
                     pref_date_from = vd_date_from data, pref_date_to = vd_date_to data,
                     created_at = now, updated_at = now\<rparr>
            in (Inr (PrefOne p), store @ [p]))"

text \<open>
  Update: the row is looked up in the caller's queryset, takes the validated fields and the
  new \<open>updated_at\<close>, and replaces the row of its primary key; the table refuses it when
  another row has its user and name.
\<close>

definition update ::
  "request \<Rightarrow> nat \<Rightarrow> validated_data \<Rightarrow> datetime \<Rightarrow> user_filter_preference list \<Rightarrow>
     (error + pref_response) \<times> user_filter_preference list" where
  "update req pk data now store =
     (if request_user req = None then (Inl NotAuthenticated, store)
      else case get_object req pk store of
             Inl e \<Rightarrow> (Inl e, store)
           | Inr p \<Rightarrow>
               let p' = p\<lparr>pref_name := vd_name data, pref_severity := vd_severity data,
                           pref_source := vd_source data, pref_date_from := vd_date_from data,
                           pref_date_to := vd_date_to data, updated_at := now\<rparr>
               in if \<exists>q \<in> set store. pref_id q \<noteq> pk \<and> pref_user q = pref_user p' \<and>
                       pref_name q = pref_name p'
                  then (Inl IntegrityError, store)
                  else (Inr (PrefOne p'), map (\<lambda>q. if pref_id q = pk then p' else q) store))"

definition destroy ::
  "request \<Rightarrow> nat \<Rightarrow> user_filter_preference list \<Rightarrow> (error + pref_response) \<times> user_filter_preference list" where
  "destroy req pk store =
     (if request_user req = None then (Inl NotAuthenticated, store)
      else case get_object req pk store of
             Inl e \<Rightarrow> (Inl e, store)
           | Inr p \<Rightarrow> (Inr NoContent, filter (\<lambda>q. pref_id q \<noteq> pk) store))"

section \<open>Specification predicates and sample data\<close>

text \<open>
  What the specification asks of a table of grouped counts: one entry for every key that
  occurs among the rows and for no other key, each with the number of rows of that key
  (which is then never zero).
\<close>

definition grouped_counts :: "('r \<Rightarrow> 'k) \<Rightarrow> 'r list \<Rightarrow> ('k \<times> nat) list \<Rightarrow> bool" where
  "grouped_counts key rs tab \<longleftrightarrow>
     distinct (map fst tab) \<and>
     set (map fst tab) = key ` set rs \<and>
     (\<forall>(k, c) \<in> set tab. c = length (filter (\<lambda>r. key r = k) rs) \<and> 0 < c)"

text \<open>
  The specification's words for the filters. A term occurs in a text, ignoring case, when
  the lower-cased text is some prefix, then the lower-cased term, then some suffix.
\<close>

definition occurs_ci :: "string \<Rightarrow> string \<Rightarrow> bool" where
  "occurs_ci t s \<longleftrightarrow> (\<exists>p q. lower s = p @ lower t @ q)"

text \<open>
  The constraints of one backend on a row: what the row must satisfy to stay in the
  queryset when the backend runs.
\<close>

definition field_constraints :: "request \<Rightarrow> log \<Rightarrow> bool" where
  "field_constraints req r \<longleftrightarrow>
     exact_ok (qp_get (query_params req) ''severity'' []) (severity r) \<and>
     exact_ok (strip (qp_get (query_params req) ''source'' [])) (source r)"

definition date_constraints :: "request \<Rightarrow> log \<Rightarrow> bool" where
  "date_constraints req r \<longleftrightarrow>
     gte_ok (date_from req) (timestamp r) \<and> lte_ok (date_to req) (timestamp r)"

definition search_constraint :: "request \<Rightarrow> log \<Rightarrow> bool" where
  "search_constraint req r \<longleftrightarrow>
     (\<forall>t \<in> set (get_search_terms req). occurs_ci t (message r) \<or> occurs_ci t (source r))"

fun row_passes :: "filter_backend \<Rightarrow> request \<Rightarrow> log \<Rightarrow> bool" where
  "row_passes DjangoFilterBackend req r = (field_constraints req r \<and> date_constraints req r)"
| "row_passes SearchFilter req r = search_constraint req r"
| "row_passes OrderingFilter req r = True"

text \<open>The three records of the specification's example.\<close>

definition mk_datetime :: "nat \<Rightarrow> nat \<Rightarrow> nat \<Rightarrow> nat \<Rightarrow> nat \<Rightarrow> nat \<Rightarrow> nat \<Rightarrow> datetime" where
  "mk_datetime y mo d h mi s us =
     \<lparr>year = y, month = mo, day = d, hour = h, minute = mi, second = s, microsecond = us\<rparr>"

definition sample_logs :: "log list" where
  "sample_logs =
     [\<lparr>log_id = 1, timestamp = mk_datetime 2024 1 1 10 0 0 0, message = ''err A'',
        severity = ''ERROR'', source = ''svc1''\<rparr>,
      \<lparr>log_id = 2, timestamp = mk_datetime 2024 1 1 12 0 0 0, message = ''ok B'',
        severity = ''INFO'', source = ''svc2''\<rparr>,
      \<lparr>log_id = 3, timestamp = mk_datetime 2024 1 2 9 0 0 0, message = ''err C'',
        severity = ''ERROR'', source = ''svc1''\<rparr>]"

definition sample_request :: "(string \<rightharpoonup> string) \<Rightarrow> request" where
  "sample_request params =
     \<lparr>request_user = Some 1, query_params = params, date_from = Absent, date_to = Absent\<rparr>"

text \<open>A request whose date range has the timestamps of the first two sample records as bounds.\<close>

definition window_request :: request where
  "window_request = (sample_request Map.empty)
     \<lparr>date_from := Cleaned (mk_datetime 2024 1 1 10 0 0 0),
      date_to := Cleaned (mk_datetime 2024 1 1 12 0 0 0)\<rparr>"

text \<open>A record whose message holds double quotes and a comma.\<close>

definition quoted_log :: log where
  "quoted_log =
     \<lparr>log_id = 7, timestamp = mk_datetime 2024 3 5 8 30 15 250000,
      message = ''said '' @ [CHR 0x22] @ ''hi'' @ [CHR 0x22] @ '', then left'',
      severity = ''WARNING'', source = ''svc1''\<rparr>"

text \<open>Two users who each own a preference named \<open>errors\<close>.\<close>

definition sample_prefs :: "user_filter_preference list" where
  "sample_prefs =
     [\<lparr>pref_id = 1, pref_user = 1, pref_name = ''errors'', pref_severity = ''ERROR'',
        pref_source = [], pref_date_from = None, pref_date_to = None,
        created_at = mk_datetime 2024 1 1 8 0 0 0, updated_at = mk_datetime 2024 1 1 8 0 0 0\<rparr>,
      \<lparr>pref_id = 2, pref_user = 2, pref_name = ''errors'', pref_severity = ''CRITICAL'',
        pref_source = ''svc2'', pref_date_from = None, pref_date_to = None,
        created_at = mk_datetime 2024 1 2 8 0 0 0, updated_at = mk_datetime 2024 1 2 8 0 0 0\<rparr>]"

definition sample_data :: validated_data where
  "sample_data =
     \<lparr>vd_name = ''errors'', vd_severity = ''WARNING'', vd_source = [], vd_date_from = None,
      vd_date_to = None\<rparr>"

section \<open>Properties of the aggregation\<close>

lemma count_into_keys: "set (map fst (count_into k gs)) = insert k (set (map fst gs))"
  by (induction k gs rule: count_into.induct) (simp_all add: insert_commute)

lemma count_into_distinct: "distinct (map fst gs) \<Longrightarrow> distinct (map fst (count_into k gs))"
  by (induction k gs rule: count_into.induct) (simp_all add: count_into_keys del: set_map)

lemma map_of_count_into:
  "map_of (count_into k gs) = (map_of gs)(k \<mapsto> Suc (count_of gs k))"
  by (induction k gs rule: count_into.induct) (auto simp: count_of_def fun_eq_iff)

lemma sum_count_into: "sum_list (map snd (count_into k gs)) = Suc (sum_list (map snd gs))"
  by (induction k gs rule: count_into.induct) auto

lemma foldl_count_keys:
  "set (map fst (foldl (\<lambda>gs r. count_into (key r) gs) gs rs)) = set (map fst gs) \<union> key ` set rs"
  by (induction rs arbitrary: gs) (simp_all add: count_into_keys del: set_map)

lemma foldl_count_distinct:
  "distinct (map fst gs) \<Longrightarrow> distinct (map fst (foldl (\<lambda>gs r. count_into (key r) gs) gs rs))"
  by (induction rs arbitrary: gs) (simp_all add: count_into_distinct)

lemma foldl_count_of:
  "count_of (foldl (\<lambda>gs r. count_into (key r) gs) gs rs) k =
     count_of gs k + length (filter (\<lambda>r. key r = k) rs)"
proof (induction rs arbitrary: gs)
  case Nil
  show ?case by simp
next
  case (Cons r rs)
  have "count_of (count_into (key r) gs) k = count_of gs k + (if key r = k then 1 else 0)"
    by (simp add: count_of_def map_of_count_into)
  then show ?case using Cons.IH [of "count_into (key r) gs"] by simp
qed

lemma foldl_count_sum:
  "sum_list (map snd (foldl (\<lambda>gs r. count_into (key r) gs) gs rs)) = sum_list (map snd gs) + length rs"
  by (induction rs arbitrary: gs) (simp_all add: sum_count_into)

lemma group_count_keys: "set (map fst (group_count key rs)) = key ` set rs"
  by (simp add: group_count_def foldl_count_keys del: set_map)

lemma group_count_distinct: "distinct (map fst (group_count key rs))"
  by (simp add: group_count_def foldl_count_distinct)

lemma group_count_entry:
  assumes "(k, c) \<in> set (group_count key rs)"
  shows "c = length (filter (\<lambda>r. key r = k) rs)"
proof -
  have "map_of (group_count key rs) k = Some c"
    using assms group_count_distinct [of key rs] by simp
  then have "count_of (group_count key rs) k = c"
    by (simp add: count_of_def)
  moreover have "count_of (group_count key rs) k = length (filter (\<lambda>r. key r = k) rs)"
    unfolding group_count_def by (simp add: foldl_count_of) (simp add: count_of_def)
  ultimately show ?thesis by simp
qed

lemma group_count_sum: "sum_list (map snd (group_count key rs)) = length rs"
  by (simp add: group_count_def foldl_count_sum)

lemma dt_key_inj: "dt_key a = dt_key b \<Longrightarrow> a = b" for a b :: datetime
  by (cases a, cases b) (simp add: dt_key_def)

lemma group_count_pos:
  assumes "(k, c) \<in> set (group_count key rs)" shows "0 < c"
proof -
  have "k \<in> set (map fst (group_count key rs))" using assms by force
  then have "k \<in> key ` set rs" by (simp only: group_count_keys)
  then obtain r where "r \<in> set rs" "key r = k" by auto
  then have "filter (\<lambda>r. key r = k) rs \<noteq> []" by (auto simp: filter_empty_conv)
  then show ?thesis using group_count_entry [OF assms] by simp
qed

lemma date_data_props:
  fixes interval :: string and trunc :: "datetime \<Rightarrow> datetime"
  defines "trunc \<equiv> (if interval = ''day'' then TruncDay else TruncMonth)"
  shows "sorted_wrt (\<lambda>a b. dt_key (fst a) < dt_key (fst b)) (date_data interval rs)"
    and "set (map fst (date_data interval rs)) = (\<lambda>r. trunc (timestamp r)) ` set rs"
    and "(b, c) \<in> set (date_data interval rs) \<Longrightarrow> c = length (filter (\<lambda>r. trunc (timestamp r) = b) rs) \<and> 0 < c"
proof -
  let ?g = "group_count (\<lambda>r. trunc (timestamp r)) rs"
  have dd: "date_data interval rs = sort_key (\<lambda>item. dt_key (fst item)) ?g"
    by (simp add: date_data_def trunc_def Let_def)
  have "distinct (map fst ?g)" by (rule group_count_distinct)
  then have "distinct (map (\<lambda>item. dt_key (fst item)) ?g)"
    by (auto simp: distinct_map inj_on_def dest: dt_key_inj)
  then have "distinct (map (\<lambda>item. dt_key (fst item)) (date_data interval rs))"
    unfolding dd by (simp add: distinct_map)
  moreover have "sorted (map (\<lambda>item. dt_key (fst item)) (date_data interval rs))"
    unfolding dd by simp
  ultimately have "sorted_wrt (<) (map (\<lambda>item. dt_key (fst item)) (date_data interval rs))"
    by (simp add: strict_sorted_iff)
  then show "sorted_wrt (\<lambda>a b. dt_key (fst a) < dt_key (fst b)) (date_data interval rs)"
    by (simp add: sorted_wrt_map)
  show "set (map fst (date_data interval rs)) = (\<lambda>r. trunc (timestamp r)) ` set rs"
    unfolding dd using group_count_keys [of "\<lambda>r. trunc (timestamp r)" rs] by simp
  assume "(b, c) \<in> set (date_data interval rs)"
  then have "(b, c) \<in> set ?g" unfolding dd by simp
  then show "c = length (filter (\<lambda>r. trunc (timestamp r) = b) rs) \<and> 0 < c"
    using group_count_entry group_count_pos by fast
qed

lemma sort_desc_key_set: "set (sort_desc_key f xs) = set xs"
  by (simp add: sort_desc_key_def)

lemma sort_desc_key_mset: "mset (sort_desc_key f xs) = mset xs"
  by (simp add: sort_desc_key_def)

lemma sort_desc_key_sorted: "sorted_wrt (\<lambda>a b. f b \<le> f a) (sort_desc_key f xs)"
proof -
  have "sorted (map f (sort_key f (rev xs)))" by simp
  then have "sorted_wrt (\<lambda>a b. f a \<le> f b) (sort_key f (rev xs))"
    by (simp add: sorted_map)
  then show ?thesis
    unfolding sort_desc_key_def by (simp add: sorted_wrt_rev)
qed

lemma count_data_props:
  shows "distinct (map fst (count_data field rs))"
    and "set (map fst (count_data field rs)) = field ` set rs"
    and "(k, c) \<in> set (count_data field rs) \<Longrightarrow> c = length (filter (\<lambda>r. field r = k) rs) \<and> 0 < c"
    and "sorted_wrt (\<lambda>a b. snd b \<le> snd a) (count_data field rs)"
    and "sum_list (map snd (count_data field rs)) = length rs"
proof -
  have m: "mset (count_data field rs) = mset (group_count field rs)"
    by (simp add: count_data_def sort_desc_key_mset)
  have "mset (map fst (count_data field rs)) = mset (map fst (group_count field rs))"
    using m by simp
  then show "distinct (map fst (count_data field rs))"
    using group_count_distinct [of field rs] by (metis mset_eq_imp_distinct_iff)
  show "set (map fst (count_data field rs)) = field ` set rs"
    using group_count_keys [of field rs] by (simp add: count_data_def sort_desc_key_set)
  show "sorted_wrt (\<lambda>a b. snd b \<le> snd a) (count_data field rs)"
    by (simp add: count_data_def sort_desc_key_sorted)
  have "mset (map snd (count_data field rs)) = mset (map snd (group_count field rs))"
    using m by simp
  then have "sum_list (map snd (count_data field rs)) = sum_list (map snd (group_count field rs))"
    by (metis sum_mset_sum_list)
  then show "sum_list (map snd (count_data field rs)) = length rs"
    by (simp add: group_count_sum)
  assume "(k, c) \<in> set (count_data field rs)"
  then have "(k, c) \<in> set (group_count field rs)"
    by (simp add: count_data_def sort_desc_key_set)
  then show "c = length (filter (\<lambda>r. field r = k) rs) \<and> 0 < c"
    using group_count_entry group_count_pos by fast
qed

lemma grouped_counts_date_data:
  "grouped_counts (\<lambda>r. (if interval = ''day'' then TruncDay else TruncMonth) (timestamp r)) rs
     (date_data interval rs)"
proof -
  have "sorted_wrt (<) (map (\<lambda>item. dt_key (fst item)) (date_data interval rs))"
    using date_data_props(1) [of interval rs] by (simp add: sorted_wrt_map)
  then have "distinct (map (\<lambda>item. dt_key (fst item)) (date_data interval rs))"
    by (simp add: strict_sorted_iff)
  then have "distinct (map fst (date_data interval rs))"
    by (simp add: distinct_map inj_on_def)
  then show ?thesis
    unfolding grouped_counts_def
    using date_data_props(2) [of interval rs] date_data_props(3) [of _ _ interval rs]
    by blast
qed

lemma grouped_counts_count_data: "grouped_counts field rs (count_data field rs)"
  unfolding grouped_counts_def
  using count_data_props(1) [of field rs] count_data_props(2) [of field rs]
    count_data_props(3) [of _ _ field rs]
  by blast

lemma TruncDay_same_day: "TruncDay a = TruncDay b \<longleftrightarrow> date_of a = date_of b"
  by (cases a, cases b) (simp add: TruncDay_def date_of_def)

lemma TruncMonth_same_month: "TruncMonth a = TruncMonth b \<longleftrightarrow> year a = year b \<and> month a = month b"
  by (cases a, cases b) (simp add: TruncMonth_def)

lemma date_of_TruncDay: "date_of (TruncDay t) = date_of t"
  by (simp add: TruncDay_def date_of_def)

lemma date_of_TruncMonth: "date_of (TruncMonth t) = (date_of t)\<lparr>day := 1\<rparr>"
  by (simp add: TruncMonth_def date_of_def)

text \<open>The sample requests pass the filter backends and leave the queryset as it is.\<close>

lemma sample_filter_all:
  "filter_queryset [DjangoFilterBackend, SearchFilter, OrderingFilter] (sample_request params) qs = Inr qs"
  if "params ''severity'' = None" "params ''source'' = None" "params ''search'' = None" "params ''ordering'' = None"
  using that
  by (simp add: sample_request_def LogFilter_is_valid_def LogFilter_qs_def get_search_terms_def
      get_ordering_def qp_get_def severity_valid_def exact_ok_def gte_ok_def lte_ok_def strip_def
      split_ws_def)

lemma sample_filter_objects:
  assumes "params ''severity'' = None" "params ''source'' = None" "params ''search'' = None"
    "params ''ordering'' = None"
  shows "filter_queryset [DjangoFilterBackend, SearchFilter, OrderingFilter] (sample_request params)
           (Log_objects_all sample_logs) = Inr (Log_objects_all sample_logs)"
  using assms by (rule sample_filter_all)

text \<open>
  C1. With \<open>group_by=date\<close>, given or by default, the view \<open>aggregated\<close> answers an
  authenticated request whose filters are valid with the table \<open>date_data\<close> of the
  filtered records, entry by entry as an ISO date and a count. The table is strictly ascending in the bucket start; it has
  exactly one entry for each bucket some record falls into, with the number of records of
  that bucket, and so no entry with count zero. The bucket of a record is the start of its
  calendar day for \<open>interval=day\<close> and the start of its calendar month for
  \<open>interval=month\<close>; the date emitted is the record's own date, with the day set to 1 for a
  month bucket.
\<close>

theorem aggregated_date_buckets:
  "(request_user req \<noteq> None \<and> qp_get (query_params req) ''group_by'' ''date'' = ''date'' \<and>
    filter_queryset backends req (Log_objects_all db) = Inr qs \<longrightarrow>
      aggregated backends req db =
        Inr (Response (map date_item
          (date_data (qp_get (query_params req) ''interval'' ''day'') (qs_rows qs))))) \<and>
   aggregated_result ''date'' interval rs = map date_item (date_data interval rs) \<and>
   sorted_wrt (\<lambda>a b. dt_key (fst a) < dt_key (fst b)) (date_data interval rs) \<and>
   (interval = ''day'' \<longrightarrow>
      grouped_counts (\<lambda>r. TruncDay (timestamp r)) rs (date_data interval rs)) \<and>
   (interval = ''month'' \<longrightarrow>
      grouped_counts (\<lambda>r. TruncMonth (timestamp r)) rs (date_data interval rs)) \<and>
   (\<forall>t. date_item (TruncDay t, c) = [(''date'', JStr (date_isoformat (date_of t))), (''count'', JInt c)]) \<and>
   (\<forall>t. date_item (TruncMonth t, c) =
      [(''date'', JStr (date_isoformat ((date_of t)\<lparr>day := 1\<rparr>))), (''count'', JInt c)])"
proof -
  have view: "request_user req \<noteq> None \<and> qp_get (query_params req) ''group_by'' ''date'' = ''date'' \<and>
    filter_queryset backends req (Log_objects_all db) = Inr qs \<longrightarrow>
      aggregated backends req db =
        Inr (Response (map date_item
          (date_data (qp_get (query_params req) ''interval'' ''day'') (qs_rows qs))))"
    by (auto simp: aggregated_def aggregated_result_def)
  have "aggregated_result ''date'' interval rs = map date_item (date_data interval rs)"
    by (simp add: aggregated_result_def)
  moreover have "interval = ''day'' \<longrightarrow>
      grouped_counts (\<lambda>r. TruncDay (timestamp r)) rs (date_data interval rs)"
    using grouped_counts_date_data [of interval rs] by auto
  moreover have "interval = ''month'' \<longrightarrow>
      grouped_counts (\<lambda>r. TruncMonth (timestamp r)) rs (date_data interval rs)"
    using grouped_counts_date_data [of interval rs] by auto
  ultimately have rest: "aggregated_result ''date'' interval rs = map date_item (date_data interval rs) \<and>
   sorted_wrt (\<lambda>a b. dt_key (fst a) < dt_key (fst b)) (date_data interval rs) \<and>
   (interval = ''day'' \<longrightarrow>
      grouped_counts (\<lambda>r. TruncDay (timestamp r)) rs (date_data interval rs)) \<and>
   (interval = ''month'' \<longrightarrow>
      grouped_counts (\<lambda>r. TruncMonth (timestamp r)) rs (date_data interval rs)) \<and>
   (\<forall>t. date_item (TruncDay t, c) = [(''date'', JStr (date_isoformat (date_of t))), (''count'', JInt c)]) \<and>
   (\<forall>t. date_item (TruncMonth t, c) =
      [(''date'', JStr (date_isoformat ((date_of t)\<lparr>day := 1\<rparr>))), (''count'', JInt c)])"
    using date_data_props(1) [of interval rs]
    by (simp add: date_item_def date_of_TruncDay date_of_TruncMonth)
  from view rest show ?thesis by (rule conjI)
qed

lemma sample_date_day:
  "date_data ''day'' sample_logs = [(mk_datetime 2024 1 1 0 0 0 0, 2), (mk_datetime 2024 1 2 0 0 0 0, 1)]"
  by (simp add: date_data_def sample_logs_def group_count_def mk_datetime_def TruncDay_def dt_key_def)

lemma sample_date_month:
  "date_data ''month'' sample_logs = [(mk_datetime 2024 1 1 0 0 0 0, 3)]"
  by (simp add: date_data_def sample_logs_def group_count_def mk_datetime_def TruncMonth_def dt_key_def)

lemma sample_result_day: "aggregated_result ''date'' ''day'' sample_logs =
         [[(''date'', JStr ''2024-01-01''), (''count'', JInt 2)],
          [(''date'', JStr ''2024-01-02''), (''count'', JInt 1)]]"
  by (simp add: aggregated_result_def sample_date_day date_item_def mk_datetime_def date_of_def
      date_isoformat_def zero_pad_def str_nat.simps digit_char_def)

theorem aggregated_date_buckets_witness:
  "aggregated [DjangoFilterBackend, SearchFilter, OrderingFilter]
     (sample_request [''group_by'' \<mapsto> ''date'', ''interval'' \<mapsto> ''day'']) sample_logs =
     Inr (Response [[(''date'', JStr ''2024-01-01''), (''count'', JInt 2)],
                    [(''date'', JStr ''2024-01-02''), (''count'', JInt 1)]]) \<and>
   aggregated [DjangoFilterBackend, SearchFilter, OrderingFilter]
     (sample_request [''group_by'' \<mapsto> ''date'', ''interval'' \<mapsto> ''month'']) sample_logs =
     Inr (Response [[(''date'', JStr ''2024-01-01''), (''count'', JInt 3)]]) \<and>
   grouped_counts (\<lambda>r. TruncDay (timestamp r)) sample_logs
     [(mk_datetime 2024 1 1 0 0 0 0, 2), (mk_datetime 2024 1 2 0 0 0 0, 1)] \<and>
   grouped_counts (\<lambda>r. TruncMonth (timestamp r)) sample_logs [(mk_datetime 2024 1 1 0 0 0 0, 3)]"
proof -
  let ?B = "[DjangoFilterBackend, SearchFilter, OrderingFilter]"
  let ?day = "sample_request [''group_by'' \<mapsto> ''date'', ''interval'' \<mapsto> ''day'']"
  let ?month = "sample_request [''group_by'' \<mapsto> ''date'', ''interval'' \<mapsto> ''month'']"
  have pre_day: "request_user ?day \<noteq> None \<and> qp_get (query_params ?day) ''group_by'' ''date'' = ''date'' \<and>
      filter_queryset ?B ?day (Log_objects_all sample_logs) = Inr (Log_objects_all sample_logs)"
    by (intro conjI, simp add: sample_request_def, simp add: sample_request_def qp_get_def,
        rule sample_filter_objects; simp)
  have pre_month: "request_user ?month \<noteq> None \<and> qp_get (query_params ?month) ''group_by'' ''date'' = ''date'' \<and>
      filter_queryset ?B ?month (Log_objects_all sample_logs) = Inr (Log_objects_all sample_logs)"
    by (intro conjI, simp add: sample_request_def, simp add: sample_request_def qp_get_def,
        rule sample_filter_objects; simp)
  have i: "qp_get (query_params ?day) ''interval'' ''day'' = ''day''"
    "qp_get (query_params ?month) ''interval'' ''day'' = ''month''"
    by (simp_all add: sample_request_def qp_get_def)
  have r: "qs_rows (Log_objects_all sample_logs) = sample_logs"
    by (simp add: Log_objects_all_def)
  note day = aggregated_date_buckets [where req = ?day and backends = ?B and db = sample_logs
      and qs = "Log_objects_all sample_logs" and interval = "''day''" and rs = sample_logs]
  note month = aggregated_date_buckets [where req = ?month and backends = ?B and db = sample_logs
      and qs = "Log_objects_all sample_logs" and interval = "''month''" and rs = sample_logs]
  from day pre_day have 1: "aggregated ?B ?day sample_logs =
      Inr (Response (map date_item (date_data ''day'' sample_logs)))"
    unfolding i r by blast
  from month pre_month have 2: "aggregated ?B ?month sample_logs =
      Inr (Response (map date_item (date_data ''month'' sample_logs)))"
    unfolding i r by blast
  from day have 3: "grouped_counts (\<lambda>r. TruncDay (timestamp r)) sample_logs (date_data ''day'' sample_logs)"
    by blast
  from month have 4: "grouped_counts (\<lambda>r. TruncMonth (timestamp r)) sample_logs (date_data ''month'' sample_logs)"
    by blast
  from 1 2 3 4 show ?thesis
    by (simp add: sample_date_day sample_date_month date_item_def mk_datetime_def date_of_def
        date_isoformat_def zero_pad_def str_nat.simps digit_char_def)
qed

text \<open>
  C2. With \<open>group_by=severity\<close> the view \<open>aggregated\<close> answers an authenticated
  request whose filters are valid with the table \<open>count_data severity\<close> of the filtered
  records, entry by entry as a severity and a count. The table has exactly one entry for each severity that
  occurs among the filtered records and none for any other, each with the number of records
  of that severity; it is descending in the count; and its counts add up to the number of
  filtered records.
\<close>

theorem aggregated_severity_counts:
  "(request_user req \<noteq> None \<and> query_params req ''group_by'' = Some ''severity'' \<and>
    filter_queryset backends req (Log_objects_all db) = Inr qs \<longrightarrow>
      aggregated backends req db =
        Inr (Response (map (count_item ''severity'') (count_data severity (qs_rows qs))))) \<and>
   aggregated_result ''severity'' interval rs = map (count_item ''severity'') (count_data severity rs) \<and>
   grouped_counts severity rs (count_data severity rs) \<and>
   sorted_wrt (\<lambda>a b. snd b \<le> snd a) (count_data severity rs) \<and>
   sum_list (map snd (count_data severity rs)) = length rs"
proof -
  have view: "request_user req \<noteq> None \<and> query_params req ''group_by'' = Some ''severity'' \<and>
    filter_queryset backends req (Log_objects_all db) = Inr qs \<longrightarrow>
      aggregated backends req db =
        Inr (Response (map (count_item ''severity'') (count_data severity (qs_rows qs))))"
    by (auto simp: aggregated_def aggregated_result_def qp_get_def)
  have rest: "aggregated_result ''severity'' interval rs = map (count_item ''severity'') (count_data severity rs) \<and>
   grouped_counts severity rs (count_data severity rs) \<and>
   sorted_wrt (\<lambda>a b. snd b \<le> snd a) (count_data severity rs) \<and>
   sum_list (map snd (count_data severity rs)) = length rs"
    using grouped_counts_count_data [of severity rs] count_data_props(4) [of severity rs]
      count_data_props(5) [of severity rs]
    by (simp add: aggregated_result_def)
  from view rest show ?thesis by (rule conjI)
qed

lemma sample_count_severity: "count_data severity sample_logs = [(''ERROR'', 2), (''INFO'', 1)]"
  by (simp add: count_data_def sort_desc_key_def sample_logs_def group_count_def)

theorem aggregated_severity_counts_witness:
  "aggregated [DjangoFilterBackend, SearchFilter, OrderingFilter]
     (sample_request [''group_by'' \<mapsto> ''severity'']) sample_logs =
     Inr (Response [[(''severity'', JStr ''ERROR''), (''count'', JInt 2)],
                    [(''severity'', JStr ''INFO''), (''count'', JInt 1)]]) \<and>
   grouped_counts severity sample_logs [(''ERROR'', 2), (''INFO'', 1)] \<and>
   sum_list (map snd [(''ERROR'', 2 :: nat), (''INFO'', 1)]) = length sample_logs"
proof -
  let ?B = "[DjangoFilterBackend, SearchFilter, OrderingFilter]"
  let ?req = "sample_request [''group_by'' \<mapsto> ''severity'']"
  have pre: "request_user ?req \<noteq> None \<and> query_params ?req ''group_by'' = Some ''severity'' \<and>
      filter_queryset ?B ?req (Log_objects_all sample_logs) = Inr (Log_objects_all sample_logs)"
    by (intro conjI, simp add: sample_request_def, simp add: sample_request_def,
        rule sample_filter_objects; simp)
  have r: "qs_rows (Log_objects_all sample_logs) = sample_logs"
    by (simp add: Log_objects_all_def)
  note th = aggregated_severity_counts [where req = ?req and backends = ?B and db = sample_logs
      and qs = "Log_objects_all sample_logs" and interval = "''day''" and rs = sample_logs]
  from th pre have 1: "aggregated ?B ?req sample_logs =
      Inr (Response (map (count_item ''severity'') (count_data severity sample_logs)))"
    unfolding r by blast
  from th have 2: "grouped_counts severity sample_logs (count_data severity sample_logs)"
    and 3: "sum_list (map snd (count_data severity sample_logs)) = length sample_logs"
    by blast+
  from 1 2 3 show ?thesis
    by (simp add: sample_count_severity count_item_def)
qed







text \<open>
  C10. With \<open>group_by=date\<close> (given or by default) the view returns the date table for the
  value of \<open>interval\<close>, \<open>day\<close> when the parameter is absent. The buckets are calendar
  days when the parameter is absent or is the string \<open>day\<close>, and calendar months for
  every other value, \<open>week\<close> and the empty string included.
\<close>

theorem aggregated_interval_choice:
  assumes "request_user req \<noteq> None"
    and "qp_get (query_params req) ''group_by'' ''date'' = ''date''"
    and "filter_queryset backends req (Log_objects_all db) = Inr qs"
  shows "aggregated backends req db =
           Inr (Response (map date_item
             (date_data (qp_get (query_params req) ''interval'' ''day'') (qs_rows qs)))) \<and>
         (query_params req ''interval'' = None \<or> query_params req ''interval'' = Some ''day'' \<longrightarrow>
            grouped_counts (\<lambda>r. TruncDay (timestamp r)) (qs_rows qs)
              (date_data (qp_get (query_params req) ''interval'' ''day'') (qs_rows qs))) \<and>
         (\<forall>v. query_params req ''interval'' = Some v \<and> v \<noteq> ''day'' \<longrightarrow>
            grouped_counts (\<lambda>r. TruncMonth (timestamp r)) (qs_rows qs)
              (date_data (qp_get (query_params req) ''interval'' ''day'') (qs_rows qs)))"
proof -
  let ?i = "qp_get (query_params req) ''interval'' ''day''"
  have "aggregated backends req db = Inr (Response (map date_item (date_data ?i (qs_rows qs))))"
    using assms by (simp add: aggregated_def aggregated_result_def)
  moreover have "grouped_counts (\<lambda>r. TruncDay (timestamp r)) (qs_rows qs) (date_data ?i (qs_rows qs))"
    if "query_params req ''interval'' = None \<or> query_params req ''interval'' = Some ''day''"
  proof -
    from that have "?i = ''day''" by (auto simp: qp_get_def)
    then show ?thesis using grouped_counts_date_data [of ?i "qs_rows qs"] by simp
  qed
  moreover have "grouped_counts (\<lambda>r. TruncMonth (timestamp r)) (qs_rows qs) (date_data ?i (qs_rows qs))"
    if "query_params req ''interval'' = Some v" "v \<noteq> ''day''" for v
  proof -
    from that have "?i \<noteq> ''day''" by (simp add: qp_get_def)
    then show ?thesis using grouped_counts_date_data [of ?i "qs_rows qs"] by simp
  qed
  ultimately show ?thesis by blast
qed

lemma sample_date_week:
  "date_data ''week'' sample_logs = [(mk_datetime 2024 1 1 0 0 0 0, 3)]"
  by (simp add: date_data_def sample_logs_def group_count_def mk_datetime_def TruncMonth_def dt_key_def)

theorem aggregated_interval_choice_witness:
  "aggregated [DjangoFilterBackend, SearchFilter, OrderingFilter]
     (sample_request [''interval'' \<mapsto> ''week'']) sample_logs =
     Inr (Response [[(''date'', JStr ''2024-01-01''), (''count'', JInt 3)]]) \<and>
   grouped_counts (\<lambda>r. TruncMonth (timestamp r)) sample_logs [(mk_datetime 2024 1 1 0 0 0 0, 3)] \<and>
   aggregated [DjangoFilterBackend, SearchFilter, OrderingFilter]
     (sample_request Map.empty) sample_logs =
     Inr (Response [[(''date'', JStr ''2024-01-01''), (''count'', JInt 2)],
                    [(''date'', JStr ''2024-01-02''), (''count'', JInt 1)]])"
proof -
  have u: "request_user (sample_request p) \<noteq> None" for p
    by (simp add: sample_request_def)
  have g: "qp_get (query_params (sample_request [''interval'' \<mapsto> ''week''])) ''group_by'' ''date'' = ''date''"
    "qp_get (query_params (sample_request Map.empty)) ''group_by'' ''date'' = ''date''"
    by (simp_all add: sample_request_def qp_get_def)
  have f: "filter_queryset [DjangoFilterBackend, SearchFilter, OrderingFilter]
      (sample_request [''interval'' \<mapsto> ''week'']) (Log_objects_all sample_logs) = Inr (Log_objects_all sample_logs)"
    "filter_queryset [DjangoFilterBackend, SearchFilter, OrderingFilter]
      (sample_request Map.empty) (Log_objects_all sample_logs) = Inr (Log_objects_all sample_logs)"
    by (rule sample_filter_objects; simp)+
  have i: "qp_get (query_params (sample_request [''interval'' \<mapsto> ''week''])) ''interval'' ''day'' = ''week''"
    "qp_get (query_params (sample_request Map.empty)) ''interval'' ''day'' = ''day''"
    "query_params (sample_request [''interval'' \<mapsto> ''week'']) ''interval'' = Some ''week''"
    by (simp_all add: sample_request_def qp_get_def)
  have r: "qs_rows (Log_objects_all sample_logs) = sample_logs"
    by (simp add: Log_objects_all_def)
  show ?thesis
    using aggregated_interval_choice [OF u g(1) f(1)] aggregated_interval_choice [OF u g(2) f(2)]
    by (simp add: i r sample_date_week sample_date_day date_item_def mk_datetime_def date_of_def
        date_isoformat_def zero_pad_def str_nat.simps digit_char_def)
qed

section \<open>Properties of the filters\<close>

lemma starts_with_iff: "starts_with n s \<longleftrightarrow> (\<exists>q. s = n @ q)"
  by (induction n s rule: starts_with.induct) auto

lemma contains_iff: "contains n s \<longleftrightarrow> (\<exists>p q. s = p @ n @ q)"
proof (induction s)
  case Nil
  show ?case by auto
next
  case (Cons c cs)
  show ?case
  proof
    assume "contains n (c # cs)"
    then consider "starts_with n (c # cs)" | "contains n cs" by auto
    then show "\<exists>p q. c # cs = p @ n @ q"
    proof cases
      case 1
      then obtain q where "c # cs = [] @ n @ q" by (auto simp: starts_with_iff)
      then show ?thesis by blast
    next
      case 2
      then obtain p q where "cs = p @ n @ q" using Cons.IH by blast
      then have "c # cs = (c # p) @ n @ q" by simp
      then show ?thesis by blast
    qed
  next
    assume "\<exists>p q. c # cs = p @ n @ q"
    then obtain p q where pq: "c # cs = p @ n @ q" by blast
    show "contains n (c # cs)"
    proof (cases p)
      case Nil
      then have "starts_with n (c # cs)" using pq by (auto simp: starts_with_iff)
      then show ?thesis by simp
    next
      case (Cons a p')
      then have "cs = p' @ n @ q" using pq by simp
      then have "contains n cs" using Cons.IH by blast
      then show ?thesis by simp
    qed
  qed
qed

lemma icontains_iff: "icontains s t \<longleftrightarrow> occurs_ci t s"
  by (simp add: icontains_def occurs_ci_def contains_iff)

lemma search_row_iff:
  "search_row terms r \<longleftrightarrow> (\<forall>t \<in> set terms. occurs_ci t (message r) \<or> occurs_ci t (source r))"
  by (induction terms) (auto simp: search_row_def search_fields_def icontains_iff)

lemma backend_rows:
  assumes "backend_filter_queryset b req qs = Inr qs'"
  shows "qs_rows qs' = filter (row_passes b req) (qs_rows qs)"
proof (cases b)
  case DjangoFilterBackend
  have "row_passes DjangoFilterBackend req =
      (\<lambda>r. exact_ok (qp_get (query_params req) ''severity'' []) (severity r) \<and>
           exact_ok (strip (qp_get (query_params req) ''source'' [])) (source r) \<and>
           gte_ok (date_from req) (timestamp r) \<and> lte_ok (date_to req) (timestamp r))"
    by (simp add: fun_eq_iff field_constraints_def date_constraints_def)
  then show ?thesis
    using assms DjangoFilterBackend by (auto simp: LogFilter_qs_def split: if_splits)
next
  case SearchFilter
  have eq: "row_passes SearchFilter req = search_row (get_search_terms req)"
    by (simp add: fun_eq_iff search_constraint_def search_row_iff)
  show ?thesis
  proof (cases "get_search_terms req = []")
    case True
    then have "row_passes SearchFilter req = (\<lambda>r. True)"
      by (simp add: fun_eq_iff search_constraint_def)
    then show ?thesis using assms SearchFilter True by simp
  next
    case False
    then show ?thesis using assms SearchFilter eq by auto
  qed
next
  case OrderingFilter
  have "row_passes OrderingFilter req = (\<lambda>r. True)"
    by (simp add: fun_eq_iff)
  then show ?thesis using assms OrderingFilter by (auto split: if_splits)
qed

lemma filter_queryset_rows:
  "filter_queryset bs req qs = Inr qs' \<Longrightarrow>
     qs_rows qs' = filter (\<lambda>r. \<forall>b \<in> set bs. row_passes b req r) (qs_rows qs)"
proof (induction bs arbitrary: qs)
  case Nil
  then show ?case by simp
next
  case (Cons b bs)
  from Cons.prems obtain qs1 where b: "backend_filter_queryset b req qs = Inr qs1"
    and rest: "filter_queryset bs req qs1 = Inr qs'"
    by (auto split: sum.splits)
  have "qs_rows qs' = filter (\<lambda>r. \<forall>b \<in> set bs. row_passes b req r) (qs_rows qs1)"
    using Cons.IH [OF rest] .
  also have "qs_rows qs1 = filter (row_passes b req) (qs_rows qs)"
    using backend_rows [OF b] .
  finally show ?case by (auto intro: filter_cong)
qed

lemma set_order_by_term: "set (order_by_term t xs) = set xs"
  by (simp add: order_by_term_def sort_desc_key_def)

lemma mset_order_by_term: "mset (order_by_term t xs) = mset xs"
  by (simp add: order_by_term_def sort_desc_key_def)

lemma mset_evaluate: "mset (evaluate qs) = mset (qs_rows qs)"
proof -
  have "mset (foldr order_by_term ts xs) = mset xs" for ts xs
    by (induction ts) (simp_all add: mset_order_by_term)
  then show ?thesis by (simp add: evaluate_def)
qed

lemma set_evaluate: "set (evaluate qs) = set (qs_rows qs)"
  using mset_evaluate [of qs] by (metis set_mset_mset)

lemma listing_members:
  assumes "filter_queryset bs req (Log_objects_all db) = Inr qs"
  shows "set (evaluate qs) = {r \<in> set db. \<forall>b \<in> set bs. row_passes b req r}"
  using filter_queryset_rows [OF assms] by (simp add: set_evaluate Log_objects_all_def)

text \<open>
  C6. With the filter backend active and \<open>date_from=a\<close>, \<open>date_to=b\<close>, the listing is the
  evaluated queryset. Every record in it is a stored record with \<open>a \<le> timestamp \<le> b\<close>,
  compared on all fields down to the microsecond; a stored record outside the range is not
  in it; and a stored record inside the range, a bound itself included, is in it when it
  meets the other active constraints.
\<close>

theorem date_range_inclusive:
  assumes "DjangoFilterBackend \<in> set backends"
    and "date_from req = Cleaned a" and "date_to req = Cleaned b"
    and "request_user req \<noteq> None"
    and "filter_queryset backends req (Log_objects_all db) = Inr qs"
  shows "raw backends req db = Inr (Response (map LogSerializer (evaluate qs))) \<and>
    (\<forall>r \<in> set (evaluate qs).
       r \<in> set db \<and> dt_key a \<le> dt_key (timestamp r) \<and> dt_key (timestamp r) \<le> dt_key b) \<and>
    (\<forall>r \<in> set db.
       \<not> (dt_key a \<le> dt_key (timestamp r) \<and> dt_key (timestamp r) \<le> dt_key b) \<longrightarrow>
       r \<notin> set (evaluate qs)) \<and>
    (\<forall>r \<in> set db.
       dt_key a \<le> dt_key (timestamp r) \<and> dt_key (timestamp r) \<le> dt_key b \<and>
       field_constraints req r \<and> (SearchFilter \<in> set backends \<longrightarrow> search_constraint req r) \<longrightarrow>
       r \<in> set (evaluate qs))"
proof -
  have members: "set (evaluate qs) = {r \<in> set db. \<forall>b \<in> set backends. row_passes b req r}"
    using assms(5) by (rule listing_members)
  have dates: "date_constraints req r \<longleftrightarrow> dt_key a \<le> dt_key (timestamp r) \<and> dt_key (timestamp r) \<le> dt_key b" for r
    using assms(2,3) by (simp add: date_constraints_def gte_ok_def lte_ok_def)
  have 1: "raw backends req db = Inr (Response (map LogSerializer (evaluate qs)))"
    using assms(4,5) by (simp add: raw_def)
  have 2: "r \<in> set db \<and> dt_key a \<le> dt_key (timestamp r) \<and> dt_key (timestamp r) \<le> dt_key b"
    if "r \<in> set (evaluate qs)" for r
  proof -
    from that have "r \<in> set db" and "row_passes DjangoFilterBackend req r"
      using members assms(1) by auto
    then show ?thesis using dates by simp
  qed
  have 3: "r \<in> set (evaluate qs)"
    if "r \<in> set db" and "dt_key a \<le> dt_key (timestamp r) \<and> dt_key (timestamp r) \<le> dt_key b"
      and "field_constraints req r" and "SearchFilter \<in> set backends \<longrightarrow> search_constraint req r" for r
  proof -
    have "row_passes k req r" if "k \<in> set backends" for k
    proof (cases k)
      case DjangoFilterBackend
      then show ?thesis
        using \<open>field_constraints req r\<close> dates
          \<open>dt_key a \<le> dt_key (timestamp r) \<and> dt_key (timestamp r) \<le> dt_key b\<close>
        by simp
    next
      case SearchFilter
      then show ?thesis
        using that \<open>SearchFilter \<in> set backends \<longrightarrow> search_constraint req r\<close> by simp
    next
      case OrderingFilter
      then show ?thesis by simp
    qed
    then show ?thesis using members \<open>r \<in> set db\<close> by simp
  qed
  from 1 2 3 show ?thesis by blast
qed

lemma window_filter:
  "filter_queryset [DjangoFilterBackend, SearchFilter, OrderingFilter] window_request
     (Log_objects_all sample_logs) =
   Inr \<lparr>qs_rows = [sample_logs ! 0, sample_logs ! 1], qs_ordering = [''-timestamp'']\<rparr>"
  by (simp add: window_request_def sample_request_def LogFilter_is_valid_def LogFilter_qs_def
      get_search_terms_def get_ordering_def qp_get_def severity_valid_def exact_ok_def gte_ok_def
      lte_ok_def strip_def split_ws_def Log_objects_all_def sample_logs_def mk_datetime_def dt_key_def)

lemma window_listing:
  "evaluate \<lparr>qs_rows = [sample_logs ! 0, sample_logs ! 1], qs_ordering = [''-timestamp'']\<rparr> =
     [sample_logs ! 1, sample_logs ! 0]"
  by (simp add: evaluate_def order_by_term_def sort_desc_key_def sample_logs_def mk_datetime_def dt_key_def)

theorem date_range_inclusive_witness:
  "raw [DjangoFilterBackend, SearchFilter, OrderingFilter] window_request sample_logs =
     Inr (Response (map LogSerializer [sample_logs ! 1, sample_logs ! 0])) \<and>
   timestamp (sample_logs ! 0) = mk_datetime 2024 1 1 10 0 0 0 \<and>
   timestamp (sample_logs ! 1) = mk_datetime 2024 1 1 12 0 0 0 \<and>
   date_from window_request = Cleaned (mk_datetime 2024 1 1 10 0 0 0) \<and>
   date_to window_request = Cleaned (mk_datetime 2024 1 1 12 0 0 0) \<and>
   sample_logs ! 2 \<notin> set [sample_logs ! 1, sample_logs ! 0]"
proof -
  have b: "DjangoFilterBackend \<in> set [DjangoFilterBackend, SearchFilter, OrderingFilter]" by simp
  have d: "date_from window_request = Cleaned (mk_datetime 2024 1 1 10 0 0 0)"
    "date_to window_request = Cleaned (mk_datetime 2024 1 1 12 0 0 0)"
    by (simp_all add: window_request_def)
  have u: "request_user window_request \<noteq> None"
    by (simp add: window_request_def sample_request_def)
  note th = date_range_inclusive [OF b d u window_filter, unfolded window_listing]
  from th have "raw [DjangoFilterBackend, SearchFilter, OrderingFilter] window_request sample_logs =
     Inr (Response (map LogSerializer [sample_logs ! 1, sample_logs ! 0]))"
    by (rule conjunct1)
  moreover have "timestamp (sample_logs ! 0) = mk_datetime 2024 1 1 10 0 0 0"
    "timestamp (sample_logs ! 1) = mk_datetime 2024 1 1 12 0 0 0"
    "sample_logs ! 2 \<notin> set [sample_logs ! 1, sample_logs ! 0]"
    by (simp_all add: sample_logs_def mk_datetime_def)
  ultimately show ?thesis using d by simp
qed













section \<open>Properties of the CSV export\<close>

lemma run_unquoted:
  "\<forall>c \<in> set s. \<not> must_quote c \<Longrightarrow> rd_state rd = IN_FIELD \<Longrightarrow>
   foldl parse_process_char rd s = rd\<lparr>rd_field := rd_field rd @ s\<rparr>"
proof (induction s arbitrary: rd)
  case Nil
  then show ?case by simp
next
  case (Cons c s)
  have c: "\<not> is_newline c" "c \<noteq> delimiter" "c \<noteq> quotechar"
    using Cons.prems(1) by (auto simp: must_quote_def is_newline_def lineterminator_def)
  have step: "parse_process_char rd c = rd\<lparr>rd_field := rd_field rd @ [c]\<rparr>"
    using c Cons.prems(2) by (simp add: parse_process_char_def parse_add_char_def)
  show ?case
    using Cons.IH [of "rd\<lparr>rd_field := rd_field rd @ [c]\<rparr>"] Cons.prems step by simp
qed

lemma run_quoted:
  "rd_state rd = IN_QUOTED_FIELD \<Longrightarrow>
   foldl parse_process_char rd (double_quotes s) = rd\<lparr>rd_field := rd_field rd @ s\<rparr>"
proof (induction s arbitrary: rd)
  case Nil
  then show ?case by simp
next
  case (Cons c s)
  show ?case
  proof (cases "c = quotechar")
    case True
    have "parse_process_char (parse_process_char rd c) c = rd\<lparr>rd_field := rd_field rd @ [c]\<rparr>"
      using True Cons.prems by (simp add: parse_process_char_def parse_add_char_def)
    then show ?thesis
      using Cons.IH [of "rd\<lparr>rd_field := rd_field rd @ [c]\<rparr>"] Cons.prems True by simp
  next
    case False
    have "parse_process_char rd c = rd\<lparr>rd_field := rd_field rd @ [c]\<rparr>"
      using False Cons.prems by (simp add: parse_process_char_def parse_add_char_def)
    then show ?thesis
      using Cons.IH [of "rd\<lparr>rd_field := rd_field rd @ [c]\<rparr>"] Cons.prems False by simp
  qed
qed


lemma quote_not_newline: "\<not> is_newline quotechar" "quotechar \<noteq> delimiter"
  "\<not> is_newline delimiter" "is_newline (CHR 0x0D)" "is_newline (CHR 0x0A)"
  "CHR 0x0D \<noteq> quotechar" "CHR 0x0D \<noteq> delimiter" "CHR 0x0A \<noteq> quotechar" "CHR 0x0A \<noteq> delimiter"
  "delimiter \<noteq> quotechar" "quotechar \<noteq> CHR 0x0D" "delimiter \<noteq> CHR 0x0D"
  "quotechar \<noteq> CHR 0x0A" "delimiter \<noteq> CHR 0x0A"
  by (simp_all add: is_newline_def quotechar_def delimiter_def)

lemma quoted_field_body:
  assumes "st = START_RECORD \<or> st = START_FIELD"
  shows "foldl parse_process_char \<lparr>rd_state = st, rd_field = [], rd_fields = pre, rd_rows = rows\<rparr>
           (quotechar # double_quotes s @ [quotechar]) =
         \<lparr>rd_state = QUOTE_IN_QUOTED_FIELD, rd_field = s, rd_fields = pre, rd_rows = rows\<rparr>"
proof -
  have 1: "parse_process_char \<lparr>rd_state = st, rd_field = [], rd_fields = pre, rd_rows = rows\<rparr> quotechar =
      \<lparr>rd_state = IN_QUOTED_FIELD, rd_field = [], rd_fields = pre, rd_rows = rows\<rparr>"
    using assms by (auto simp: parse_process_char_def start_record_def start_field_def quote_not_newline)
  have 2: "foldl parse_process_char \<lparr>rd_state = IN_QUOTED_FIELD, rd_field = [], rd_fields = pre, rd_rows = rows\<rparr>
      (double_quotes s) = \<lparr>rd_state = IN_QUOTED_FIELD, rd_field = s, rd_fields = pre, rd_rows = rows\<rparr>"
    by (simp add: run_quoted)
  have 3: "parse_process_char \<lparr>rd_state = IN_QUOTED_FIELD, rd_field = s, rd_fields = pre, rd_rows = rows\<rparr> quotechar =
      \<lparr>rd_state = QUOTE_IN_QUOTED_FIELD, rd_field = s, rd_fields = pre, rd_rows = rows\<rparr>"
    by (simp add: parse_process_char_def)
  show ?thesis by (simp add: 1 2 3)
qed

lemma unquoted_field_body:
  assumes "st = START_RECORD \<or> st = START_FIELD" and "\<forall>c \<in> set s. \<not> must_quote c" and "s \<noteq> []"
  shows "foldl parse_process_char \<lparr>rd_state = st, rd_field = [], rd_fields = pre, rd_rows = rows\<rparr> s =
         \<lparr>rd_state = IN_FIELD, rd_field = s, rd_fields = pre, rd_rows = rows\<rparr>"
proof -
  obtain c cs where s: "s = c # cs" using assms(3) by (cases s) auto
  have c: "\<not> is_newline c" "c \<noteq> delimiter" "c \<noteq> quotechar"
    using assms(2) s by (auto simp: must_quote_def is_newline_def lineterminator_def)
  have 1: "parse_process_char \<lparr>rd_state = st, rd_field = [], rd_fields = pre, rd_rows = rows\<rparr> c =
      \<lparr>rd_state = IN_FIELD, rd_field = [c], rd_fields = pre, rd_rows = rows\<rparr>"
    using assms(1) c
    by (auto simp: parse_process_char_def start_record_def start_field_def parse_add_char_def)
  have 2: "foldl parse_process_char \<lparr>rd_state = IN_FIELD, rd_field = [c], rd_fields = pre, rd_rows = rows\<rparr> cs =
      \<lparr>rd_state = IN_FIELD, rd_field = c # cs, rd_fields = pre, rd_rows = rows\<rparr>"
    using assms(2) s by (simp add: run_unquoted)
  show ?thesis by (simp add: s 1 2)
qed

text \<open>What the delimiter and the line terminator do after a field.\<close>

lemma delimiter_after_field:
  assumes "st = IN_FIELD \<or> st = QUOTE_IN_QUOTED_FIELD \<or> (st = START_RECORD \<or> st = START_FIELD) \<and> f = []"
  shows "parse_process_char \<lparr>rd_state = st, rd_field = f, rd_fields = pre, rd_rows = rows\<rparr> delimiter =
         \<lparr>rd_state = START_FIELD, rd_field = [], rd_fields = pre @ [f], rd_rows = rows\<rparr>"
  using assms
  by (auto simp: parse_process_char_def start_record_def start_field_def parse_save_field_def
      quote_not_newline)

lemma terminator_after_field:
  assumes "st = IN_FIELD \<or> st = QUOTE_IN_QUOTED_FIELD \<or> st = START_FIELD \<and> f = []"
  shows "foldl parse_process_char \<lparr>rd_state = st, rd_field = f, rd_fields = pre, rd_rows = rows\<rparr>
           lineterminator =
         \<lparr>rd_state = START_RECORD, rd_field = [], rd_fields = [], rd_rows = rows @ [pre @ [f]]\<rparr>"
  using assms
  by (auto simp: lineterminator_def parse_process_char_def start_field_def parse_save_field_def
      end_record_def quote_not_newline)

lemma terminator_at_start:
  "foldl parse_process_char \<lparr>rd_state = START_RECORD, rd_field = [], rd_fields = [], rd_rows = rows\<rparr>
     lineterminator =
   \<lparr>rd_state = START_RECORD, rd_field = [], rd_fields = [], rd_rows = rows @ [[]]\<rparr>"
  by (simp add: lineterminator_def parse_process_char_def start_record_def end_record_def
      quote_not_newline)

lemma field_then_delimiter:
  assumes "st = START_RECORD \<or> st = START_FIELD"
  shows "foldl parse_process_char \<lparr>rd_state = st, rd_field = [], rd_fields = pre, rd_rows = rows\<rparr>
           (join_append s @ [delimiter]) =
         \<lparr>rd_state = START_FIELD, rd_field = [], rd_fields = pre @ [s], rd_rows = rows\<rparr>"
proof (cases "\<exists>c \<in> set s. must_quote c")
  case True
  then have "join_append s @ [delimiter] = (quotechar # double_quotes s @ [quotechar]) @ [delimiter]"
    by (simp add: join_append_def)
  then show ?thesis
    by (simp only: foldl_append quoted_field_body [OF assms]) (simp add: delimiter_after_field)
next
  case False
  then have j: "join_append s = s" by (simp add: join_append_def)
  show ?thesis
  proof (cases "s = []")
    case True
    then show ?thesis using assms j by (simp add: delimiter_after_field)
  next
    case nonempty: False
    from False have "\<forall>c \<in> set s. \<not> must_quote c" by simp
    then show ?thesis
      using unquoted_field_body [OF assms _ nonempty, of pre rows] j
      by (simp add: delimiter_after_field)
  qed
qed

lemma field_then_terminator:
  assumes "st = START_RECORD \<or> st = START_FIELD" and "st = START_FIELD \<or> join_append s \<noteq> []"
  shows "foldl parse_process_char \<lparr>rd_state = st, rd_field = [], rd_fields = pre, rd_rows = rows\<rparr>
           (join_append s @ lineterminator) =
         \<lparr>rd_state = START_RECORD, rd_field = [], rd_fields = [], rd_rows = rows @ [pre @ [s]]\<rparr>"
proof (cases "\<exists>c \<in> set s. must_quote c")
  case True
  then have "join_append s @ lineterminator =
      (quotechar # double_quotes s @ [quotechar]) @ lineterminator"
    by (simp add: join_append_def)
  then show ?thesis
    by (simp only: foldl_append quoted_field_body [OF assms(1)]) (simp add: terminator_after_field)
next
  case False
  then have j: "join_append s = s" by (simp add: join_append_def)
  show ?thesis
  proof (cases "s = []")
    case True
    then show ?thesis using assms j by (simp add: terminator_after_field)
  next
    case nonempty: False
    from False have "\<forall>c \<in> set s. \<not> must_quote c" by simp
    then show ?thesis
      using unquoted_field_body [OF assms(1) _ nonempty, of pre rows] j
      by (simp add: terminator_after_field)
  qed
qed

lemma fields_then_terminator:
  assumes "fs \<noteq> []" and "st = START_RECORD \<or> st = START_FIELD"
    and "st = START_FIELD \<or> join_fields (map join_append fs) \<noteq> []"
  shows "foldl parse_process_char \<lparr>rd_state = st, rd_field = [], rd_fields = pre, rd_rows = rows\<rparr>
           (join_fields (map join_append fs) @ lineterminator) =
         \<lparr>rd_state = START_RECORD, rd_field = [], rd_fields = [], rd_rows = rows @ [pre @ fs]\<rparr>"
  using assms
proof (induction fs arbitrary: st pre rule: join_fields.induct)
  case 1
  then show ?case by simp
next
  case (2 f)
  then show ?case using field_then_terminator [of st f pre rows] by simp
next
  case (3 f g gs)
  have a: "foldl parse_process_char \<lparr>rd_state = st, rd_field = [], rd_fields = pre, rd_rows = rows\<rparr>
      (join_append f @ [delimiter]) =
      \<lparr>rd_state = START_FIELD, rd_field = [], rd_fields = pre @ [f], rd_rows = rows\<rparr>"
    using "3.prems"(2) by (rule field_then_delimiter)
  have b: "foldl parse_process_char
      \<lparr>rd_state = START_FIELD, rd_field = [], rd_fields = pre @ [f], rd_rows = rows\<rparr>
      (join_fields (map join_append (g # gs)) @ lineterminator) =
      \<lparr>rd_state = START_RECORD, rd_field = [], rd_fields = [], rd_rows = rows @ [(pre @ [f]) @ g # gs]\<rparr>"
    by (rule "3.IH") simp_all
  have c: "join_fields (map join_append (f # g # gs)) @ lineterminator =
      (join_append f @ [delimiter]) @ (join_fields (map join_append (g # gs)) @ lineterminator)"
    by simp
  have "foldl parse_process_char \<lparr>rd_state = st, rd_field = [], rd_fields = pre, rd_rows = rows\<rparr>
      (join_fields (map join_append (f # g # gs)) @ lineterminator) =
    foldl parse_process_char
      (foldl parse_process_char \<lparr>rd_state = st, rd_field = [], rd_fields = pre, rd_rows = rows\<rparr>
        (join_append f @ [delimiter]))
      (join_fields (map join_append (g # gs)) @ lineterminator)"
    unfolding c by (rule foldl_append)
  also have "\<dots> = \<lparr>rd_state = START_RECORD, rd_field = [], rd_fields = [],
      rd_rows = rows @ [(pre @ [f]) @ g # gs]\<rparr>"
    unfolding a by (rule b)
  finally show ?case by simp
qed

lemma join_append_empty: "join_append s = [] \<longleftrightarrow> s = []"
  by (auto simp: join_append_def)

lemma join_fields_empty: "join_fields fs = [] \<longleftrightarrow> fs = [] \<or> fs = [[]]"
  by (induction fs rule: join_fields.induct) simp_all

lemma read_write_fields:
  "foldl parse_process_char \<lparr>rd_state = START_RECORD, rd_field = [], rd_fields = [], rd_rows = rows\<rparr>
     (write_fields fs) =
   \<lparr>rd_state = START_RECORD, rd_field = [], rd_fields = [], rd_rows = rows @ [fs]\<rparr>"
proof (cases "fs = []")
  case True
  then show ?thesis by (simp add: write_fields_def terminator_at_start)
next
  case False
  show ?thesis
  proof (cases "join_fields (map join_append fs) = []")
    case True
    then have "map join_append fs = [[]]" using False by (simp add: join_fields_empty)
    then have fs: "fs = [[]]" by (cases fs) (auto simp: join_append_empty)
    have "foldl parse_process_char \<lparr>rd_state = START_RECORD, rd_field = [], rd_fields = [], rd_rows = rows\<rparr>
        ((quotechar # double_quotes [] @ [quotechar]) @ lineterminator) =
        \<lparr>rd_state = START_RECORD, rd_field = [], rd_fields = [], rd_rows = rows @ [[] @ [[]]]\<rparr>"
      unfolding foldl_append
      by (subst quoted_field_body) (simp_all add: terminator_after_field)
    then show ?thesis using True fs by (simp add: write_fields_def)
  next
    case nonempty: False
    then show ?thesis
      using fields_then_terminator [of fs START_RECORD "[]" rows] False
      by (simp add: write_fields_def)
  qed
qed

lemma read_written_rows:
  "foldl parse_process_char \<lparr>rd_state = START_RECORD, rd_field = [], rd_fields = [], rd_rows = rows\<rparr>
     (concat (map write_fields rs)) =
   \<lparr>rd_state = START_RECORD, rd_field = [], rd_fields = [], rd_rows = rows @ rs\<rparr>"
  by (induction rs arbitrary: rows) (simp_all add: read_write_fields)

lemma csv_reader_write_fields: "csv_reader (concat (map write_fields rs)) = rs"
  using read_written_rows [of "[]" rs] by (simp add: csv_reader_def reader_init_def reader_finish_def)

lemma digit_char_plain: "d < 10 \<Longrightarrow> digit_char d \<in> set ''0123456789''"
proof -
  assume "d < 10"
  then have "d \<in> {0, 1, 2, 3, 4, 5, 6, 7, 8, 9}" by auto
  then show ?thesis by (auto simp: digit_char_def)
qed

lemma str_nat_digits: "set (str_nat n) \<subseteq> set ''0123456789''"
proof (induction n rule: str_nat.induct)
  case (1 n)
  show ?case
  proof (cases "n < 10")
    case True
    then show ?thesis using digit_char_plain [of n] by (subst str_nat.simps) simp
  next
    case False
    have "n mod 10 < 10" by simp
    then have "digit_char (n mod 10) \<in> set ''0123456789''" by (rule digit_char_plain)
    then show ?thesis using False "1.IH" by (subst str_nat.simps) simp
  qed
qed

lemma zero_pad_digits: "set (zero_pad w n) \<subseteq> set ''0123456789''"
  using str_nat_digits [of n] by (auto simp: zero_pad_def)

lemma plain_chars: "c \<in> set ''0123456789-: .'' \<Longrightarrow> \<not> must_quote c"
  by (auto simp: must_quote_def delimiter_def quotechar_def lineterminator_def)

lemma str_nat_plain: "\<forall>c \<in> set (str_nat n). \<not> must_quote c"
  using str_nat_digits [of n] plain_chars by auto

lemma zero_pad_plain: "\<forall>c \<in> set (zero_pad w n). \<not> must_quote c"
  using zero_pad_digits [of w n] plain_chars by auto

lemma str_datetime_plain: "\<forall>c \<in> set (str_datetime t). \<not> must_quote c"
proof -
  have "\<not> must_quote (CHR ''-'')" "\<not> must_quote (CHR '':'')" "\<not> must_quote (CHR '' '')"
    "\<not> must_quote (CHR ''.'')"
    by (simp_all add: plain_chars)
  then show ?thesis
    using zero_pad_plain
    by (auto simp: str_datetime_def datetime_isoformat_def date_isoformat_def format_time_def)
qed

lemma join_append_str_nat: "join_append (str_nat n) = str_nat n"
  using str_nat_plain [of n] by (simp add: join_append_def)

lemma join_append_str_datetime: "join_append (str_datetime t) = str_datetime t"
  using str_datetime_plain [of t] by (simp add: join_append_def)

lemma header_line:
  "writerow [CStr ''id'', CStr ''timestamp'', CStr ''message'', CStr ''severity'', CStr ''source''] =
     ''id,timestamp,message,severity,source'' @ lineterminator"
  by (simp add: writerow_def write_fields_def join_append_def must_quote_def delimiter_def
      quotechar_def lineterminator_def)

lemma log_line:
  "writerow (log_row r) =
     str_nat (log_id r) @ '','' @ str_datetime (timestamp r) @ '','' @ join_append (message r) @
     '','' @ join_append (severity r) @ '','' @ join_append (source r) @ lineterminator"
  by (simp add: writerow_def write_fields_def log_row_def join_append_str_nat
      join_append_str_datetime delimiter_def)

lemma double_quotes_concat:
  "double_quotes s = concat (map (\<lambda>c. if c = CHR 0x22 then [CHR 0x22, CHR 0x22] else [c]) s)"
  by (induction s) (simp_all add: quotechar_def)

lemma must_quote_chars:
  "must_quote c \<longleftrightarrow> c = CHR '','' \<or> c = CHR 0x22 \<or> c = CHR 0x0D \<or> c = CHR 0x0A"
  by (auto simp: must_quote_def delimiter_def quotechar_def lineterminator_def)

text \<open>
  C5, as amended. The export streams the header line \<open>id,timestamp,message,severity,source\<close>
  and then one line for each record of the evaluated queryset. A record's line is its id in
  decimal, its timestamp as \<^verbatim>\<open>str()\<close> writes it, its message, its severity and its
  source, separated by commas and ended by CR LF. The timestamp is the ISO date and the time
  of day with a space between them, where ISO-8601 has the letter T. A field with a comma, a
  double quote, CR or LF in it is put in double quotes with each of its double quotes written
  twice; any other field is written as it is.
\<close>

theorem export_csv_document:
  assumes "request_user req \<noteq> None"
    and "filter_queryset backends req (Log_objects_all db) = Inr qs"
  shows "export_csv backends req db =
           Inr (StreamingHttpResponse ''text/csv''
             (''attachment; filename='' @ [CHR 0x22] @ ''logs_export.csv'' @ [CHR 0x22])
             (generate_csv qs)) \<and>
         generate_csv qs =
           (''id,timestamp,message,severity,source'' @ lineterminator) #
           map (\<lambda>r. writerow (log_row r)) (evaluate qs) \<and>
         (\<forall>r. writerow (log_row r) =
            str_nat (log_id r) @ '','' @ str_datetime (timestamp r) @ '','' @
            join_append (message r) @ '','' @ join_append (severity r) @ '','' @
            join_append (source r) @ lineterminator) \<and>
         (\<forall>t. str_datetime t = date_isoformat (date_of t) @ '' '' @ format_time t) \<and>
         (\<forall>s. join_append s =
            (if \<exists>c \<in> set s. c = CHR '','' \<or> c = CHR 0x22 \<or> c = CHR 0x0D \<or> c = CHR 0x0A
             then [CHR 0x22] @ double_quotes s @ [CHR 0x22] else s)) \<and>
         (\<forall>s. double_quotes s =
            concat (map (\<lambda>c. if c = CHR 0x22 then [CHR 0x22, CHR 0x22] else [c]) s))"
proof -
  have 1: "export_csv backends req db =
           Inr (StreamingHttpResponse ''text/csv''
             (''attachment; filename='' @ [CHR 0x22] @ ''logs_export.csv'' @ [CHR 0x22])
             (generate_csv qs))"
    using assms by (simp add: export_csv_def)
  have 2: "generate_csv qs =
           (''id,timestamp,message,severity,source'' @ lineterminator) #
           map (\<lambda>r. writerow (log_row r)) (evaluate qs)"
    by (simp only: generate_csv_def header_line)
  have 3: "str_datetime t = date_isoformat (date_of t) @ '' '' @ format_time t" for t
    by (simp add: str_datetime_def datetime_isoformat_def)
  have 4: "join_append s =
            (if \<exists>c \<in> set s. c = CHR '','' \<or> c = CHR 0x22 \<or> c = CHR 0x0D \<or> c = CHR 0x0A
             then [CHR 0x22] @ double_quotes s @ [CHR 0x22] else s)" for s
    by (simp add: join_append_def must_quote_chars quotechar_def)
  show ?thesis
    by (intro conjI allI) (rule 1 2 3 4 log_line double_quotes_concat)+
qed

lemma no_filter_request:
  "filter_queryset [DjangoFilterBackend, SearchFilter, OrderingFilter] (sample_request Map.empty)
     (Log_objects_all db) = Inr (Log_objects_all db)"
  by (rule sample_filter_all) simp_all

lemma quoted_log_evaluate: "evaluate (Log_objects_all [quoted_log]) = [quoted_log]"
  by (simp add: evaluate_def Log_objects_all_def order_by_term_def sort_desc_key_def)

lemma quoted_log_texts:
  "str_nat (log_id quoted_log) = ''7''"
  "str_datetime (timestamp quoted_log) = ''2024-03-05 08:30:15.250000''"
  "datetime_isoformat (CHR ''T'') (timestamp quoted_log) = ''2024-03-05T08:30:15.250000''"
  by (simp_all add: quoted_log_def mk_datetime_def str_datetime_def datetime_isoformat_def
      format_time_def date_isoformat_def date_of_def zero_pad_def str_nat.simps digit_char_def)

lemma quoted_log_line:
  "writerow (log_row quoted_log) =
     ''7,2024-03-05 08:30:15.250000,'' @ [CHR 0x22] @ ''said '' @ [CHR 0x22, CHR 0x22] @ ''hi'' @
     [CHR 0x22, CHR 0x22] @ '', then left'' @ [CHR 0x22] @ '',WARNING,svc1'' @ lineterminator"
  by (simp add: log_line quoted_log_texts)
    (simp add: quoted_log_def join_append_def must_quote_chars quotechar_def)

text \<open>
  The claim as stated, with the timestamp in ISO-8601, fails on the sample record: the
  line holds \<open>2024-03-05 08:30:15.250000\<close>, and the ISO-8601 text of that timestamp is
  \<open>2024-03-05T08:30:15.250000\<close>.
\<close>

theorem export_csv_timestamp_counterexample:
  "export_csv [DjangoFilterBackend, SearchFilter, OrderingFilter] (sample_request Map.empty) [quoted_log] =
     Inr (StreamingHttpResponse ''text/csv''
       (''attachment; filename='' @ [CHR 0x22] @ ''logs_export.csv'' @ [CHR 0x22])
       [''id,timestamp,message,severity,source'' @ lineterminator,
        ''7,2024-03-05 08:30:15.250000,'' @ [CHR 0x22] @ ''said '' @ [CHR 0x22, CHR 0x22] @ ''hi'' @
        [CHR 0x22, CHR 0x22] @ '', then left'' @ [CHR 0x22] @ '',WARNING,svc1'' @ lineterminator]) \<and>
   datetime_isoformat (CHR ''T'') (timestamp quoted_log) = ''2024-03-05T08:30:15.250000'' \<and>
   ''7,2024-03-05 08:30:15.250000,'' @ [CHR 0x22] @ ''said '' @ [CHR 0x22, CHR 0x22] @ ''hi'' @
     [CHR 0x22, CHR 0x22] @ '', then left'' @ [CHR 0x22] @ '',WARNING,svc1'' @ lineterminator \<noteq>
   ''7,'' @ datetime_isoformat (CHR ''T'') (timestamp quoted_log) @ '','' @ [CHR 0x22] @ ''said '' @
     [CHR 0x22, CHR 0x22] @ ''hi'' @ [CHR 0x22, CHR 0x22] @ '', then left'' @ [CHR 0x22] @
     '',WARNING,svc1'' @ lineterminator"
proof -
  have "request_user (sample_request Map.empty) \<noteq> None" by (simp add: sample_request_def)
  then have "export_csv [DjangoFilterBackend, SearchFilter, OrderingFilter] (sample_request Map.empty) [quoted_log] =
     Inr (StreamingHttpResponse ''text/csv''
       (''attachment; filename='' @ [CHR 0x22] @ ''logs_export.csv'' @ [CHR 0x22])
       (generate_csv (Log_objects_all [quoted_log])))"
    by (simp add: export_csv_def no_filter_request del: filter_queryset.simps)
  moreover have "generate_csv (Log_objects_all [quoted_log]) =
      [''id,timestamp,message,severity,source'' @ lineterminator, writerow (log_row quoted_log)]"
    by (simp only: generate_csv_def header_line quoted_log_evaluate list.map)
  ultimately show ?thesis
    by (simp only: quoted_log_line quoted_log_texts) simp
qed

theorem export_csv_document_witness:
  "request_user (sample_request Map.empty) \<noteq> None \<and>
   export_csv [DjangoFilterBackend, SearchFilter, OrderingFilter] (sample_request Map.empty) [quoted_log] =
     Inr (StreamingHttpResponse ''text/csv''
       (''attachment; filename='' @ [CHR 0x22] @ ''logs_export.csv'' @ [CHR 0x22])
       (generate_csv (Log_objects_all [quoted_log]))) \<and>
   generate_csv (Log_objects_all [quoted_log]) =
     [''id,timestamp,message,severity,source'' @ lineterminator,
      ''7,2024-03-05 08:30:15.250000,'' @ [CHR 0x22] @ ''said '' @ [CHR 0x22, CHR 0x22] @ ''hi'' @
        [CHR 0x22, CHR 0x22] @ '', then left'' @ [CHR 0x22] @ '',WARNING,svc1'' @ lineterminator]"
proof -
  have u: "request_user (sample_request Map.empty) \<noteq> None" by (simp add: sample_request_def)
  note th = export_csv_document [OF u no_filter_request, of "[quoted_log]"]
  from th have 1: "export_csv [DjangoFilterBackend, SearchFilter, OrderingFilter] (sample_request Map.empty) [quoted_log] =
     Inr (StreamingHttpResponse ''text/csv''
       (''attachment; filename='' @ [CHR 0x22] @ ''logs_export.csv'' @ [CHR 0x22])
       (generate_csv (Log_objects_all [quoted_log])))"
    by (rule conjunct1)
  from th have "generate_csv (Log_objects_all [quoted_log]) =
           (''id,timestamp,message,severity,source'' @ lineterminator) #
           map (\<lambda>r. writerow (log_row r)) (evaluate (Log_objects_all [quoted_log]))"
    by (elim conjE)
  then have 2: "generate_csv (Log_objects_all [quoted_log]) =
     [''id,timestamp,message,severity,source'' @ lineterminator,
      ''7,2024-03-05 08:30:15.250000,'' @ [CHR 0x22] @ ''said '' @ [CHR 0x22, CHR 0x22] @ ''hi'' @
        [CHR 0x22, CHR 0x22] @ '', then left'' @ [CHR 0x22] @ '',WARNING,svc1'' @ lineterminator]"
    by (simp only: quoted_log_evaluate list.map quoted_log_line)
  from u 1 2 show ?thesis by (intro conjI)
qed

lemma generate_csv_rows:
  "concat (generate_csv qs) =
     concat (map write_fields
       ([''id'', ''timestamp'', ''message'', ''severity'', ''source''] #
        map (\<lambda>r. [str_nat (log_id r), str_datetime (timestamp r), message r, severity r, source r])
          (evaluate qs)))"
  by (simp add: generate_csv_def writerow_def log_row_def comp_def)

lemma csv_reader_generate_csv:
  "csv_reader (concat (generate_csv qs)) =
     [''id'', ''timestamp'', ''message'', ''severity'', ''source''] #
     map (\<lambda>r. [str_nat (log_id r), str_datetime (timestamp r), message r, severity r, source r])
       (evaluate qs)"
  by (simp only: generate_csv_rows csv_reader_write_fields)

lemma LogSerializer_values:
  "jobject_values (LogSerializer r) =
     [str_nat (log_id r), datetime_isoformat (CHR ''T'') (timestamp r), message r, severity r, source r]"
  by (simp add: jobject_values_def LogSerializer_def)

text \<open>
  C4, as amended. Reading the exported document gives the header row and then, in the order
  of the raw listing, one row for each record of the listing: the id, message, severity and
  source of the row are the texts of the listing's entry for that record, so a message with
  commas, quotes or line breaks comes back unchanged; the timestamp of the row is what
  \<^verbatim>\<open>str()\<close> writes for the record's date-time, the date and the time of day with a
  space between them, and not the ISO-8601 text of the listing. For the date-times of this
  model, which carry no UTC offset, the two texts have the same date and the same time of
  day, joined by a space in the row and by the letter T in the listing.
\<close>

theorem export_csv_round_trip:
  assumes "request_user req \<noteq> None"
    and "filter_queryset backends req (Log_objects_all db) = Inr qs"
  shows "export_csv backends req db =
           Inr (StreamingHttpResponse ''text/csv''
             (''attachment; filename='' @ [CHR 0x22] @ ''logs_export.csv'' @ [CHR 0x22])
             (generate_csv qs)) \<and>
         raw backends req db = Inr (Response (map LogSerializer (evaluate qs))) \<and>
         csv_reader (concat (generate_csv qs)) =
           [''id'', ''timestamp'', ''message'', ''severity'', ''source''] #
           map (\<lambda>r. [str_nat (log_id r), str_datetime (timestamp r), message r, severity r, source r])
             (evaluate qs) \<and>
         map jobject_values (map LogSerializer (evaluate qs)) =
           map (\<lambda>r. [str_nat (log_id r), datetime_isoformat (CHR ''T'') (timestamp r), message r,
                      severity r, source r])
             (evaluate qs) \<and>
         (\<forall>t. str_datetime t = date_isoformat (date_of t) @ '' '' @ format_time t \<and>
              datetime_isoformat (CHR ''T'') t = date_isoformat (date_of t) @ ''T'' @ format_time t)"
proof -
  have 1: "export_csv backends req db =
           Inr (StreamingHttpResponse ''text/csv''
             (''attachment; filename='' @ [CHR 0x22] @ ''logs_export.csv'' @ [CHR 0x22])
             (generate_csv qs))"
    using assms by (simp add: export_csv_def)
  have 2: "raw backends req db = Inr (Response (map LogSerializer (evaluate qs)))"
    using assms by (simp add: raw_def)
  have 3: "map jobject_values (map LogSerializer (evaluate qs)) =
           map (\<lambda>r. [str_nat (log_id r), datetime_isoformat (CHR ''T'') (timestamp r), message r,
                      severity r, source r])
             (evaluate qs)"
    by (simp add: LogSerializer_values)
  have 4: "str_datetime t = date_isoformat (date_of t) @ '' '' @ format_time t \<and>
      datetime_isoformat (CHR ''T'') t = date_isoformat (date_of t) @ ''T'' @ format_time t" for t
    by (simp add: str_datetime_def datetime_isoformat_def)
  show ?thesis
    by (intro conjI allI) (rule 1 2 3 csv_reader_generate_csv conjunct1 [OF 4] conjunct2 [OF 4])+
qed

lemma str_nat_7: "str_nat 7 = ''7''"
  by (simp add: str_nat.simps digit_char_def)

lemma quoted_log_fields:
  "message quoted_log = ''said '' @ [CHR 0x22] @ ''hi'' @ [CHR 0x22] @ '', then left''"
  "severity quoted_log = ''WARNING''" "source quoted_log = ''svc1''" "log_id quoted_log = 7"
  by (simp_all add: quoted_log_def)

theorem export_csv_round_trip_witness:
  "request_user (sample_request Map.empty) \<noteq> None \<and>
   export_csv [DjangoFilterBackend, SearchFilter, OrderingFilter] (sample_request Map.empty) [quoted_log] =
     Inr (StreamingHttpResponse ''text/csv''
       (''attachment; filename='' @ [CHR 0x22] @ ''logs_export.csv'' @ [CHR 0x22])
       (generate_csv (Log_objects_all [quoted_log]))) \<and>
   csv_reader (concat (generate_csv (Log_objects_all [quoted_log]))) =
     [[''id'', ''timestamp'', ''message'', ''severity'', ''source''],
      [''7'', ''2024-03-05 08:30:15.250000'',
       ''said '' @ [CHR 0x22] @ ''hi'' @ [CHR 0x22] @ '', then left'', ''WARNING'', ''svc1'']] \<and>
   raw [DjangoFilterBackend, SearchFilter, OrderingFilter] (sample_request Map.empty) [quoted_log] =
     Inr (Response (map LogSerializer [quoted_log]))"
proof -
  have u: "request_user (sample_request Map.empty) \<noteq> None" by (simp add: sample_request_def)
  note th = export_csv_round_trip [OF u no_filter_request, of "[quoted_log]", unfolded quoted_log_evaluate]
  from th have 1: "export_csv [DjangoFilterBackend, SearchFilter, OrderingFilter] (sample_request Map.empty) [quoted_log] =
     Inr (StreamingHttpResponse ''text/csv''
       (''attachment; filename='' @ [CHR 0x22] @ ''logs_export.csv'' @ [CHR 0x22])
       (generate_csv (Log_objects_all [quoted_log])))"
    by (rule conjunct1)
  from th have 2: "raw [DjangoFilterBackend, SearchFilter, OrderingFilter] (sample_request Map.empty) [quoted_log] =
     Inr (Response (map LogSerializer [quoted_log]))"
    by (elim conjE)
  from th have "csv_reader (concat (generate_csv (Log_objects_all [quoted_log]))) =
      [''id'', ''timestamp'', ''message'', ''severity'', ''source''] #
      map (\<lambda>r. [str_nat (log_id r), str_datetime (timestamp r), message r, severity r, source r])
        [quoted_log]"
    by (elim conjE)
  then have 3: "csv_reader (concat (generate_csv (Log_objects_all [quoted_log]))) =
     [[''id'', ''timestamp'', ''message'', ''severity'', ''source''],
      [''7'', ''2024-03-05 08:30:15.250000'',
       ''said '' @ [CHR 0x22] @ ''hi'' @ [CHR 0x22] @ '', then left'', ''WARNING'', ''svc1'']]"
    by (simp only: list.map quoted_log_texts quoted_log_fields str_nat_7)
  from u 1 2 3 show ?thesis by (intro conjI)
qed

text \<open>
  The claim as stated, with the rows equal to the entries of the raw listing, fails on the
  sample record: the timestamp read back from the document is not the timestamp text of the
  listing.
\<close>

theorem export_csv_listing_counterexample:
  "export_csv [DjangoFilterBackend, SearchFilter, OrderingFilter] (sample_request Map.empty) [quoted_log] =
     Inr (StreamingHttpResponse ''text/csv''
       (''attachment; filename='' @ [CHR 0x22] @ ''logs_export.csv'' @ [CHR 0x22])
       (generate_csv (Log_objects_all [quoted_log]))) \<and>
   tl (csv_reader (concat (generate_csv (Log_objects_all [quoted_log])))) =
     [[''7'', ''2024-03-05 08:30:15.250000'',
       ''said '' @ [CHR 0x22] @ ''hi'' @ [CHR 0x22] @ '', then left'', ''WARNING'', ''svc1'']] \<and>
   raw [DjangoFilterBackend, SearchFilter, OrderingFilter] (sample_request Map.empty) [quoted_log] =
     Inr (Response
       [[(''id'', JInt 7), (''timestamp'', JStr ''2024-03-05T08:30:15.250000''),
         (''message'', JStr (''said '' @ [CHR 0x22] @ ''hi'' @ [CHR 0x22] @ '', then left'')),
         (''severity'', JStr ''WARNING''), (''source'', JStr ''svc1'')]]) \<and>
   tl (csv_reader (concat (generate_csv (Log_objects_all [quoted_log])))) \<noteq>
     map jobject_values
       [[(''id'', JInt 7), (''timestamp'', JStr ''2024-03-05T08:30:15.250000''),
         (''message'', JStr (''said '' @ [CHR 0x22] @ ''hi'' @ [CHR 0x22] @ '', then left'')),
         (''severity'', JStr ''WARNING''), (''source'', JStr ''svc1'')]]"
proof -
  have u: "request_user (sample_request Map.empty) \<noteq> None" by (simp add: sample_request_def)
  have 1: "export_csv [DjangoFilterBackend, SearchFilter, OrderingFilter] (sample_request Map.empty) [quoted_log] =
     Inr (StreamingHttpResponse ''text/csv''
       (''attachment; filename='' @ [CHR 0x22] @ ''logs_export.csv'' @ [CHR 0x22])
       (generate_csv (Log_objects_all [quoted_log])))"
    using u by (simp add: export_csv_def no_filter_request del: filter_queryset.simps)
  have 2: "tl (csv_reader (concat (generate_csv (Log_objects_all [quoted_log])))) =
     [[''7'', ''2024-03-05 08:30:15.250000'',
       ''said '' @ [CHR 0x22] @ ''hi'' @ [CHR 0x22] @ '', then left'', ''WARNING'', ''svc1'']]"
    by (simp only: csv_reader_generate_csv quoted_log_evaluate list.map list.sel quoted_log_texts
        quoted_log_fields str_nat_7)
  have "LogSerializer quoted_log =
      [(''id'', JInt 7), (''timestamp'', JStr ''2024-03-05T08:30:15.250000''),
       (''message'', JStr (''said '' @ [CHR 0x22] @ ''hi'' @ [CHR 0x22] @ '', then left'')),
       (''severity'', JStr ''WARNING''), (''source'', JStr ''svc1'')]"
    by (simp only: LogSerializer_def quoted_log_texts quoted_log_fields str_nat_7)
  then have 3: "raw [DjangoFilterBackend, SearchFilter, OrderingFilter] (sample_request Map.empty) [quoted_log] =
     Inr (Response
       [[(''id'', JInt 7), (''timestamp'', JStr ''2024-03-05T08:30:15.250000''),
         (''message'', JStr (''said '' @ [CHR 0x22] @ ''hi'' @ [CHR 0x22] @ '', then left'')),
         (''severity'', JStr ''WARNING''), (''source'', JStr ''svc1'')]])"
    using u by (simp add: raw_def no_filter_request quoted_log_evaluate del: filter_queryset.simps)
  have 4: "tl (csv_reader (concat (generate_csv (Log_objects_all [quoted_log])))) \<noteq>
     map jobject_values
       [[(''id'', JInt 7), (''timestamp'', JStr ''2024-03-05T08:30:15.250000''),
         (''message'', JStr (''said '' @ [CHR 0x22] @ ''hi'' @ [CHR 0x22] @ '', then left'')),
         (''severity'', JStr ''WARNING''), (''source'', JStr ''svc1'')]]"
    unfolding 2 by (simp add: jobject_values_def)
  from 1 2 3 4 show ?thesis by (intro conjI)
qed

section \<open>Properties of the filter preferences\<close>

lemma fold_max_ge: "a \<le> fold max xs (a::nat)"
proof (induction xs arbitrary: a)
  case Nil
  show ?case by simp
next
  case (Cons y ys)
  have "a \<le> max y a" by simp
  also have "\<dots> \<le> fold max ys (max y a)" by (rule Cons.IH)
  finally show ?case by simp
qed

lemma fold_max_member: "x \<in> set xs \<Longrightarrow> x \<le> fold max xs (a::nat)"
proof (induction xs arbitrary: a)
  case Nil
  then show ?case by simp
next
  case (Cons y ys)
  show ?case
  proof (cases "x = y")
    case True
    have "y \<le> max y a" by simp
    also have "\<dots> \<le> fold max ys (max y a)" by (rule fold_max_ge)
    finally show ?thesis using True by simp
  next
    case False
    then have "x \<in> set ys" using Cons.prems by simp
    then show ?thesis using Cons.IH by simp
  qed
qed

lemma next_id_fresh: "next_id store \<notin> set (map pref_id store)"
proof
  assume "next_id store \<in> set (map pref_id store)"
  then have "next_id store \<le> fold max (map pref_id store) 0" by (rule fold_max_member)
  then show False by (simp add: next_id_def)
qed

lemma get_queryset_owner:
  "request_user req = Some u \<Longrightarrow> get_queryset req store = filter (\<lambda>p. pref_user p = u) store"
  by (auto simp: get_queryset_def intro: filter_cong)

lemma get_object_other:
  assumes "request_user req = Some u" and "p \<in> set store" and "pref_user p \<noteq> u"
    and "distinct (map pref_id store)"
  shows "get_object req (pref_id p) store = Inl Http404"
proof -
  have "filter (\<lambda>q. pref_id q = pref_id p) (filter (\<lambda>q. pref_user q = u) store) = []"
  proof (rule ccontr)
    assume "filter (\<lambda>q. pref_id q = pref_id p) (filter (\<lambda>q. pref_user q = u) store) \<noteq> []"
    then obtain q where "q \<in> set store" "pref_id q = pref_id p" "pref_user q = u"
      by (auto simp: filter_empty_conv)
    then have "q = p" using assms(2,4) by (auto simp: distinct_map inj_on_def)
    then show False using \<open>pref_user q = u\<close> assms(3) by simp
  qed
  then show ?thesis by (simp add: get_object_def get_queryset_owner [OF assms(1)])
qed

lemma get_object_found:
  assumes "request_user req = Some u" and "get_object req pk store = Inr p"
  shows "p \<in> set store \<and> pref_id p = pk \<and> pref_user p = u"
proof -
  have "filter (\<lambda>q. pref_id q = pk) (filter (\<lambda>q. pref_user q = u) store) = [p]"
    using assms by (auto simp: get_object_def get_queryset_owner split: list.splits)
  then have "p \<in> set (filter (\<lambda>q. pref_id q = pk) (filter (\<lambda>q. pref_user q = u) store))"
    by simp
  then show ?thesis by simp
qed

lemma row_of_found_object:
  assumes "request_user req = Some u" and "distinct (map pref_id store)"
    and "get_object req pk store = Inr p" and "q \<in> set store" and "pref_id q = pk"
  shows "pref_user q = u"
proof -
  from get_object_found [OF assms(1,3)] have p: "p \<in> set store" "pref_id p = pk" "pref_user p = u"
    by simp_all
  then have "q = p" using assms(2,4,5) by (auto simp: distinct_map inj_on_def)
  then show ?thesis using p by simp
qed

lemma list_untouched: "snd (list_preferences req store) = store"
  by (simp add: list_preferences_def)

lemma retrieve_untouched: "snd (retrieve req pk store) = store"
  by (simp add: retrieve_def split: sum.splits)

lemma create_others_untouched:
  assumes "request_user req = Some u" and "v \<noteq> u"
  shows "filter (\<lambda>p. pref_user p = v) (snd (create req data now store)) = filter (\<lambda>p. pref_user p = v) store"
  using assms by (simp add: create_def Let_def)

lemma update_others_untouched:
  assumes "request_user req = Some u" and "v \<noteq> u" and "distinct (map pref_id store)"
  shows "filter (\<lambda>p. pref_user p = v) (snd (update req pk data now store)) = filter (\<lambda>p. pref_user p = v) store"
proof (cases "get_object req pk store")
  case (Inl e)
  then show ?thesis by (simp add: update_def)
next
  case (Inr p)
  define p' where "p' = p\<lparr>pref_name := vd_name data, pref_severity := vd_severity data,
      pref_source := vd_source data, pref_date_from := vd_date_from data,
      pref_date_to := vd_date_to data, updated_at := now\<rparr>"
  have u': "pref_user p' \<noteq> v"
    using get_object_found [OF assms(1) Inr] assms(2) by (simp add: p'_def)
  have "filter (\<lambda>p. pref_user p = v) (map (\<lambda>q. if pref_id q = pk then p' else q) xs) =
      filter (\<lambda>p. pref_user p = v) xs" if "set xs \<subseteq> set store" for xs
    using that
  proof (induction xs)
    case Nil
    show ?case by simp
  next
    case (Cons x xs)
    then show ?case using row_of_found_object [OF assms(1,3) Inr, of x] u' assms(2) by auto
  qed
  then have "filter (\<lambda>p. pref_user p = v) (map (\<lambda>q. if pref_id q = pk then p' else q) store) =
      filter (\<lambda>p. pref_user p = v) store"
    by simp
  then show ?thesis using Inr unfolding p'_def by (simp add: update_def Let_def)
qed

lemma destroy_others_untouched:
  assumes "request_user req = Some u" and "v \<noteq> u" and "distinct (map pref_id store)"
  shows "filter (\<lambda>p. pref_user p = v) (snd (destroy req pk store)) = filter (\<lambda>p. pref_user p = v) store"
proof (cases "get_object req pk store")
  case (Inl e)
  then show ?thesis by (simp add: destroy_def)
next
  case (Inr p)
  have "filter (\<lambda>p. pref_user p = v) (filter (\<lambda>q. pref_id q \<noteq> pk) store) =
      filter (\<lambda>p. pref_user p = v) store"
    using row_of_found_object [OF assms(1,3) Inr] assms(2) by (auto intro: filter_cong)
  then show ?thesis using Inr by (simp add: destroy_def)
qed

text \<open>Create and delete keep the primary keys and the pairs of user and name unique.\<close>

lemma create_keeps_keys:
  assumes "distinct (map pref_id store)"
    and "distinct (map (\<lambda>p. (pref_user p, pref_name p)) store)"
  shows "distinct (map pref_id (snd (create req data now store))) \<and>
         distinct (map (\<lambda>p. (pref_user p, pref_name p)) (snd (create req data now store)))"
proof (cases "request_user req")
  case None
  then show ?thesis using assms by (simp add: create_def)
next
  case (Some u)
  show ?thesis
  proof (cases "\<exists>p \<in> set store. pref_user p = u \<and> pref_name p = vd_name data")
    case True
    then show ?thesis using assms Some by (simp add: create_def)
  next
    case False
    then have "(u, vd_name data) \<notin> (\<lambda>p. (pref_user p, pref_name p)) ` set store" by auto
    then show ?thesis
      using assms Some False next_id_fresh [of store] by (simp add: create_def Let_def)
  qed
qed

lemma destroy_keeps_keys:
  assumes "distinct (map pref_id store)"
    and "distinct (map (\<lambda>p. (pref_user p, pref_name p)) store)"
  shows "distinct (map pref_id (snd (destroy req pk store))) \<and>
         distinct (map (\<lambda>p. (pref_user p, pref_name p)) (snd (destroy req pk store)))"
  using assms by (simp add: destroy_def distinct_map_filter split: sum.splits)

text \<open>
  C8. For an authenticated caller, with the primary keys of the table distinct: the list
  view returns exactly the rows owned by the caller, so never a row of another user, also
  when both own a preference of the same name; retrieve, update and delete addressed to the
  id of a row owned by another user answer not-found (404, not forbidden) and leave the
  table as it was; and no operation of the caller changes the rows owned by any other user.
\<close>

theorem preferences_scoped_to_caller:
  assumes "request_user req = Some u" and "distinct (map pref_id store)"
  shows "list_preferences req store =
           (Inr (PrefList (sort_desc_key (\<lambda>p. dt_key (created_at p))
                   (filter (\<lambda>p. pref_user p = u) store))), store) \<and>
         set (sort_desc_key (\<lambda>p. dt_key (created_at p)) (filter (\<lambda>p. pref_user p = u) store)) =
           {p \<in> set store. pref_user p = u} \<and>
         (\<forall>p \<in> set store. pref_user p \<noteq> u \<longrightarrow>
            retrieve req (pref_id p) store = (Inl Http404, store) \<and>
            update req (pref_id p) data now store = (Inl Http404, store) \<and>
            destroy req (pref_id p) store = (Inl Http404, store)) \<and>
         (\<forall>v. v \<noteq> u \<longrightarrow>
            snd (list_preferences req store) = store \<and>
            snd (retrieve req pk store) = store \<and>
            filter (\<lambda>p. pref_user p = v) (snd (create req data now store)) =
              filter (\<lambda>p. pref_user p = v) store \<and>
            filter (\<lambda>p. pref_user p = v) (snd (update req pk data now store)) =
              filter (\<lambda>p. pref_user p = v) store \<and>
            filter (\<lambda>p. pref_user p = v) (snd (destroy req pk store)) =
              filter (\<lambda>p. pref_user p = v) store)"
proof -
  have 1: "list_preferences req store =
           (Inr (PrefList (sort_desc_key (\<lambda>p. dt_key (created_at p))
                   (filter (\<lambda>p. pref_user p = u) store))), store)"
    using assms(1) by (simp add: list_preferences_def get_queryset_owner)
  have 2: "set (sort_desc_key (\<lambda>p. dt_key (created_at p)) (filter (\<lambda>p. pref_user p = u) store)) =
           {p \<in> set store. pref_user p = u}"
    by (simp add: sort_desc_key_set)
  have 3: "retrieve req (pref_id p) store = (Inl Http404, store) \<and>
      update req (pref_id p) data now store = (Inl Http404, store) \<and>
      destroy req (pref_id p) store = (Inl Http404, store)"
    if "p \<in> set store" "pref_user p \<noteq> u" for p
    using get_object_other [OF assms(1) that assms(2)] assms(1)
    by (simp add: retrieve_def update_def destroy_def)
  have 4: "snd (list_preferences req store) = store \<and>
      snd (retrieve req pk store) = store \<and>
      filter (\<lambda>p. pref_user p = v) (snd (create req data now store)) =
        filter (\<lambda>p. pref_user p = v) store \<and>
      filter (\<lambda>p. pref_user p = v) (snd (update req pk data now store)) =
        filter (\<lambda>p. pref_user p = v) store \<and>
      filter (\<lambda>p. pref_user p = v) (snd (destroy req pk store)) =
        filter (\<lambda>p. pref_user p = v) store" if "v \<noteq> u" for v
    using list_untouched retrieve_untouched create_others_untouched [OF assms(1) that]
      update_others_untouched [OF assms(1) that assms(2)]
      destroy_others_untouched [OF assms(1) that assms(2)]
    by (intro conjI)
  from 1 2 3 4 show ?thesis by blast
qed

lemma sample_prefs_ids: "distinct (map pref_id sample_prefs)"
  by (simp add: sample_prefs_def)

theorem preferences_scoped_to_caller_witness:
  "request_user (sample_request Map.empty) = Some 1 \<and>
   distinct (map pref_id sample_prefs) \<and>
   pref_name (sample_prefs ! 0) = pref_name (sample_prefs ! 1) \<and>
   pref_user (sample_prefs ! 0) = 1 \<and> pref_user (sample_prefs ! 1) = 2 \<and>
   list_preferences (sample_request Map.empty) sample_prefs =
     (Inr (PrefList [sample_prefs ! 0]), sample_prefs) \<and>
   retrieve (sample_request Map.empty) 2 sample_prefs = (Inl Http404, sample_prefs) \<and>
   update (sample_request Map.empty) 2 sample_data (mk_datetime 2024 1 3 0 0 0 0) sample_prefs =
     (Inl Http404, sample_prefs) \<and>
   destroy (sample_request Map.empty) 2 sample_prefs = (Inl Http404, sample_prefs)"
proof -
  have u: "request_user (sample_request Map.empty) = Some 1" by (simp add: sample_request_def)
  note th = preferences_scoped_to_caller [OF u sample_prefs_ids,
      of sample_data "mk_datetime 2024 1 3 0 0 0 0" 2]
  have l: "sort_desc_key (\<lambda>p. dt_key (created_at p)) (filter (\<lambda>p. pref_user p = 1) sample_prefs) =
      [sample_prefs ! 0]"
    by (simp add: sample_prefs_def sort_desc_key_def)
  from th have 1: "list_preferences (sample_request Map.empty) sample_prefs =
     (Inr (PrefList [sample_prefs ! 0]), sample_prefs)"
    unfolding l by (rule conjunct1)
  have m: "sample_prefs ! 1 \<in> set sample_prefs" "pref_user (sample_prefs ! 1) \<noteq> 1"
    "pref_id (sample_prefs ! 1) = 2"
    by (simp_all add: sample_prefs_def)
  from th have "\<forall>p \<in> set sample_prefs. pref_user p \<noteq> 1 \<longrightarrow>
            retrieve (sample_request Map.empty) (pref_id p) sample_prefs = (Inl Http404, sample_prefs) \<and>
            update (sample_request Map.empty) (pref_id p) sample_data (mk_datetime 2024 1 3 0 0 0 0) sample_prefs =
              (Inl Http404, sample_prefs) \<and>
            destroy (sample_request Map.empty) (pref_id p) sample_prefs = (Inl Http404, sample_prefs)"
    by (elim conjE)
  with m have 2: "retrieve (sample_request Map.empty) 2 sample_prefs = (Inl Http404, sample_prefs) \<and>
      update (sample_request Map.empty) 2 sample_data (mk_datetime 2024 1 3 0 0 0 0) sample_prefs =
        (Inl Http404, sample_prefs) \<and>
      destroy (sample_request Map.empty) 2 sample_prefs = (Inl Http404, sample_prefs)"
    by fastforce
  have 3: "pref_name (sample_prefs ! 0) = pref_name (sample_prefs ! 1)"
    "pref_user (sample_prefs ! 0) = 1" "pref_user (sample_prefs ! 1) = 2"
    by (simp_all add: sample_prefs_def)
  from u sample_prefs_ids 1 2 3 show ?thesis by (intro conjI) simp_all
qed

text \<open>
  C9. Create, for an authenticated caller: when the caller already owns a preference of the
  submitted name, the insert fails with the integrity error of the unique constraint and the
  table stays as it was; when the caller owns none of that name, whoever else does, the
  insert succeeds and appends the new row, owned by the caller, under a fresh id.
\<close>

theorem create_unique_per_user:
  assumes "request_user req = Some u"
  shows "((\<exists>p \<in> set store. pref_user p = u \<and> pref_name p = vd_name data) \<longrightarrow>
            create req data now store = (Inl IntegrityError, store)) \<and>
         ((\<forall>p \<in> set store. pref_user p = u \<longrightarrow> pref_name p \<noteq> vd_name data) \<longrightarrow>
            (\<exists>p. create req data now store = (Inr (PrefOne p), store @ [p]) \<and>
                 pref_user p = u \<and> pref_name p = vd_name data \<and>
                 pref_id p \<notin> set (map pref_id store)))"
proof (intro conjI impI)
  assume "\<exists>p \<in> set store. pref_user p = u \<and> pref_name p = vd_name data"
  then show "create req data now store = (Inl IntegrityError, store)"
    using assms by (simp add: create_def)
next
  assume free: "\<forall>p \<in> set store. pref_user p = u \<longrightarrow> pref_name p \<noteq> vd_name data"
  define p where "p = \<lparr>pref_id = next_id store, pref_user = u, pref_name = vd_name data,
      pref_severity = vd_severity data, pref_source = vd_source data,
      pref_date_from = vd_date_from data, pref_date_to = vd_date_to data,
      created_at = now, updated_at = now\<rparr>"
  have "\<not> (\<exists>p \<in> set store. pref_user p = u \<and> pref_name p = vd_name data)"
    using free by blast
  then have "create req data now store = (Inr (PrefOne p), store @ [p])"
    using assms unfolding p_def by (simp add: create_def Let_def)
  moreover have "pref_user p = u" "pref_name p = vd_name data"
    by (simp_all add: p_def)
  moreover have "pref_id p \<notin> set (map pref_id store)"
    using next_id_fresh [of store] by (simp add: p_def)
  ultimately show "\<exists>p. create req data now store = (Inr (PrefOne p), store @ [p]) \<and>
      pref_user p = u \<and> pref_name p = vd_name data \<and> pref_id p \<notin> set (map pref_id store)"
    by blast
qed

theorem create_unique_per_user_witness:
  "request_user (sample_request Map.empty) = Some 1 \<and>
   pref_user (sample_prefs ! 0) = 1 \<and> pref_name (sample_prefs ! 0) = vd_name sample_data \<and>
   create (sample_request Map.empty) sample_data (mk_datetime 2024 1 3 0 0 0 0) sample_prefs =
     (Inl IntegrityError, sample_prefs) \<and>
   request_user ((sample_request Map.empty)\<lparr>request_user := Some 3\<rparr>) = Some 3 \<and>
   (\<exists>p. create ((sample_request Map.empty)\<lparr>request_user := Some 3\<rparr>) sample_data
          (mk_datetime 2024 1 3 0 0 0 0) sample_prefs = (Inr (PrefOne p), sample_prefs @ [p]) \<and>
        pref_user p = 3 \<and> pref_name p = ''errors'')"
proof -
  have u1: "request_user (sample_request Map.empty) = Some 1" by (simp add: sample_request_def)
  have u3: "request_user ((sample_request Map.empty)\<lparr>request_user := Some 3\<rparr>) = Some 3" by simp
  have own: "sample_prefs ! 0 \<in> set sample_prefs" "pref_user (sample_prefs ! 0) = 1"
    "pref_name (sample_prefs ! 0) = vd_name sample_data"
    by (simp_all add: sample_prefs_def sample_data_def)
  then have ex: "\<exists>p \<in> set sample_prefs. pref_user p = 1 \<and> pref_name p = vd_name sample_data"
    by blast
  have free: "\<forall>p \<in> set sample_prefs. pref_user p = 3 \<longrightarrow> pref_name p \<noteq> vd_name sample_data"
    by (simp add: sample_prefs_def)
  have n: "vd_name sample_data = ''errors''" by (simp add: sample_data_def)
  from create_unique_per_user [OF u1, of sample_prefs sample_data "mk_datetime 2024 1 3 0 0 0 0"] ex
  have 1: "create (sample_request Map.empty) sample_data (mk_datetime 2024 1 3 0 0 0 0) sample_prefs =
     (Inl IntegrityError, sample_prefs)"
    by blast
  from create_unique_per_user [OF u3, of sample_prefs sample_data "mk_datetime 2024 1 3 0 0 0 0"] free
  have 2: "\<exists>p. create ((sample_request Map.empty)\<lparr>request_user := Some 3\<rparr>) sample_data
          (mk_datetime 2024 1 3 0 0 0 0) sample_prefs = (Inr (PrefOne p), sample_prefs @ [p]) \<and>
        pref_user p = 3 \<and> pref_name p = ''errors''"
    unfolding n by blast
  from u1 own(2,3) 1 u3 2 show ?thesis by (intro conjI)
qed

end
